theory Spec2Isabelle
  imports Complex_Main "HOL-Library.Char_ord" "HOL-Library.List_Lexorder"
begin

section \<open>Python strings and lists\<close>

text \<open>
  The definitions of this section are the Python built-ins that
  \<^verbatim>\<open>noaa_data_fetch.py\<close> calls on strings and lists: \<^verbatim>\<open>str.endswith\<close>,
  \<^verbatim>\<open>str.split\<close>, \<^verbatim>\<open>str.join\<close>, slicing \<^verbatim>\<open>xs[:-1]\<close> and \<^verbatim>\<open>xs[n:]\<close>,
  \<^verbatim>\<open>os.path.join\<close> and a stable descending sort.
\<close>

definition endswith :: "string \<Rightarrow> string \<Rightarrow> bool" where
  "endswith s suffix =
     (length suffix \<le> length s \<and> drop (length s - length suffix) s = suffix)"

text \<open>\<^verbatim>\<open>s.split(sep)\<close> for a one-character separator: never empty, \<^verbatim>\<open>''\<close> gives \<^verbatim>\<open>['']\<close>.\<close>

fun str_split :: "char \<Rightarrow> string \<Rightarrow> string list" where
  "str_split sep [] = [[]]"
| "str_split sep (c # cs) =
     (if c = sep then [] # str_split sep cs
      else (case str_split sep cs of
              [] \<Rightarrow> [[c]]
            | p # ps \<Rightarrow> (c # p) # ps))"

fun str_join :: "string \<Rightarrow> string list \<Rightarrow> string" where
  "str_join sep [] = []"
| "str_join sep [p] = p"
| "str_join sep (p # q # ps) = p @ sep @ str_join sep (q # ps)"

text \<open>\<^verbatim>\<open>xs[n:]\<close>: a negative start counts from the end and is clipped at the front.\<close>

definition slice_from :: "'a list \<Rightarrow> int \<Rightarrow> 'a list" where
  "slice_from xs n =
     (if n < 0 then drop (nat (int (length xs) + n)) xs else drop (nat n) xs)"

text \<open>\<^verbatim>\<open>os.path.join(a, b)\<close> on POSIX for a relative \<^verbatim>\<open>b\<close> (a directory entry).\<close>

definition path_join :: "string \<Rightarrow> string \<Rightarrow> string" where
  "path_join a b =
     (if a = [] \<or> endswith a ''/'' then a @ b else a @ ''/'' @ b)"

section \<open>Exceptions\<close>

text \<open>
  The exception classes that the three functions can meet. \<^verbatim>\<open>OSError\<close> stands for the
  class and its subclasses (\<^verbatim>\<open>FileNotFoundError\<close>, \<^verbatim>\<open>NotADirectoryError\<close>,
  \<^verbatim>\<open>PermissionError\<close>).
\<close>

datatype exn =
    ConnectionError
  | Timeout
  | RetryError
  | TooManyRedirects
  | HTTPError nat
  | JSONDecodeError
  | KeyError string
  | TypeError
  | ValueError
  | AttributeError
  | RecursionError
  | OSError
  | OverflowError

text \<open>
  \<^verbatim>\<open>except requests.exceptions.RequestException\<close> catches the classes that derive from
  it in \<^verbatim>\<open>requests.exceptions\<close>. From requests 2.27 on, \<^verbatim>\<open>response.json()\<close> raises
  \<^verbatim>\<open>requests.exceptions.JSONDecodeError\<close> for a text that is not JSON, a subclass of
  \<^verbatim>\<open>InvalidJSONError\<close> and so of \<^verbatim>\<open>RequestException\<close>; before that it raised a plain
  \<^verbatim>\<open>ValueError\<close>. \<^verbatim>\<open>RecursionError\<close> and \<^verbatim>\<open>OSError\<close> are not request exceptions.
\<close>

fun is_RequestException :: "exn \<Rightarrow> bool" where
  "is_RequestException ConnectionError = True"
| "is_RequestException Timeout = True"
| "is_RequestException RetryError = True"
| "is_RequestException TooManyRedirects = True"
| "is_RequestException (HTTPError _) = True"
| "is_RequestException JSONDecodeError = True"
| "is_RequestException _ = False"

section \<open>The retention manager: \<^verbatim>\<open>cleanup_old_files\<close>\<close>

subsection \<open>The host: clock, time zone, cache directory\<close>

text \<open>
  Times are integers, in microseconds (the resolution of \<^verbatim>\<open>datetime\<close>). A naive
  \<^verbatim>\<open>datetime\<close> is the number of microseconds its wall-clock reading is after
  1970-01-01 00:00:00. \<^verbatim>\<open>datetime.utcnow()\<close> reads the clock in UTC;
  \<^verbatim>\<open>datetime.fromtimestamp(t)\<close> gives the wall-clock reading of the host's local
  zone at POSIX time \<^verbatim>\<open>t\<close>, that is \<^verbatim>\<open>t\<close> plus the zone's offset from UTC then.
  A \<^verbatim>\<open>datetime\<close> lies between \<^verbatim>\<open>datetime.min\<close> (0001-01-01 00:00:00) and
  \<^verbatim>\<open>datetime.max\<close> (9999-12-31 23:59:59.999999); a \<^verbatim>\<open>timedelta\<close> has at most
  999999999 days, in either direction. A value outside raises.
\<close>

record host =
  utcnow :: int
  utcoffset :: "int \<Rightarrow> int"

definition datetime_min :: int where
  "datetime_min = - 62135596800000000"

definition datetime_max :: int where
  "datetime_max = 253402300799999999"

definition fromtimestamp :: "host \<Rightarrow> int \<Rightarrow> exn + int" where
  "fromtimestamp h t =
     (let local_time = t + utcoffset h t in
      if local_time < datetime_min \<or> datetime_max < local_time then Inl ValueError
      else Inr local_time)"

text \<open>The length of \<^verbatim>\<open>timedelta(hours=n)\<close> in microseconds.\<close>

definition timedelta_hours :: "int \<Rightarrow> int" where
  "timedelta_hours n = n * 3600000000"

text \<open>
  Line 165, \<^verbatim>\<open>datetime.utcnow() - timedelta(hours=max_age_hours)\<close>: the constructor
  raises \<^verbatim>\<open>OverflowError\<close> when the days of the interval (the hours divided by 24,
  rounded down) leave the range, and so does the subtraction when the result is not a
  \<^verbatim>\<open>datetime\<close>.
\<close>

definition cutoff_time :: "host \<Rightarrow> int \<Rightarrow> exn + int" where
  "cutoff_time h max_age_hours =
     (if max_age_hours div 24 < - 999999999 \<or> 999999999 < max_age_hours div 24
      then Inl OverflowError
      else
        let c = utcnow h - timedelta_hours max_age_hours in
        if c < datetime_min \<or> datetime_max < c then Inl OverflowError else Inr c)"

text \<open>
  A directory entry: its name, its \<^verbatim>\<open>st_mtime\<close> (POSIX time, microseconds), whether
  \<^verbatim>\<open>os.remove\<close> on it raises \<^verbatim>\<open>OSError\<close>, and whether \<^verbatim>\<open>os.stat\<close> on it raises
  \<^verbatim>\<open>OSError\<close> (a symbolic link whose target is gone). A directory is the list of its
  entries in the order \<^verbatim>\<open>os.listdir\<close> returns them. A file system maps a path that
  exists to what is there: a directory, or something that \<^verbatim>\<open>os.listdir\<close> refuses (a
  regular file, a directory that may not be read).
\<close>

record file_entry =
  name :: string
  st_mtime :: int
  locked :: bool
  dangling :: bool

datatype node = Directory "file_entry list" | Unlistable

type_synonym filesystem = "string \<Rightarrow> node option"

definition os_listdir :: "node \<Rightarrow> exn + file_entry list" where
  "os_listdir nd = (case nd of Directory listing \<Rightarrow> Inr listing | Unlistable \<Rightarrow> Inl OSError)"

definition os_stat :: "file_entry \<Rightarrow> exn + int" where
  "os_stat f = (if dangling f then Inl OSError else Inr (st_mtime f))"

datatype cleanup_log =
    Failed_to_delete string
  | Cleaned_up nat

subsection \<open>First loop: categorise and check the age\<close>

text \<open>
  \<^verbatim>\<open>files_by_category\<close> is a dict of lists; a dict keeps its keys in insertion order,
  so it is an association list. One entry of a list is the triple
  \<^verbatim>\<open>(filename, file_path, file_time)\<close>.
\<close>

type_synonym triple = "string \<times> string \<times> int"

fun dict_append :: "('k \<times> 'v list) list \<Rightarrow> 'k \<Rightarrow> 'v \<Rightarrow> ('k \<times> 'v list) list" where
  "dict_append [] k v = [(k, [v])]"
| "dict_append ((k', vs) # d) k v =
     (if k' = k then (k', vs @ [v]) # d else (k', vs) # dict_append d k v)"

text \<open>
  One pass of the loop body, lines 171 to 189. \<^verbatim>\<open>os.stat\<close> and
  \<^verbatim>\<open>datetime.fromtimestamp\<close> stand outside every \<^verbatim>\<open>try\<close>: what they raise leaves the
  function.
\<close>

definition scan_file ::
  "string \<Rightarrow> host \<Rightarrow> int \<Rightarrow>
   (string \<times> triple list) list \<times> string list \<Rightarrow> file_entry \<Rightarrow>
   exn + (string \<times> triple list) list \<times> string list" where
  "scan_file data_dir h cutoff st f =
     (let filename = name f in
      if \<not> endswith filename ''.json'' then Inr st
      else
        let file_path = path_join data_dir filename in
        case os_stat f of
          Inl x \<Rightarrow> Inl x
        | Inr mtime \<Rightarrow>
            (case fromtimestamp h mtime of
               Inl x \<Rightarrow> Inl x
             | Inr file_time \<Rightarrow>
                 let parts = str_split CHR ''_'' filename;
                     files_by_category =
                       (if 3 \<le> length parts
                        then dict_append (fst st) (str_join ''_'' (butlast parts))
                               (filename, file_path, file_time)
                        else fst st);
                     files_to_delete =
                       (if file_time < cutoff then snd st @ [file_path] else snd st)
                 in Inr (files_by_category, files_to_delete)))"

fun scan_files ::
  "string \<Rightarrow> host \<Rightarrow> int \<Rightarrow>
   (string \<times> triple list) list \<times> string list \<Rightarrow> file_entry list \<Rightarrow>
   exn + (string \<times> triple list) list \<times> string list" where
  "scan_files data_dir h cutoff st [] = Inr st"
| "scan_files data_dir h cutoff st (f # rest) =
     (case scan_file data_dir h cutoff st f of
        Inl x \<Rightarrow> Inl x
      | Inr st' \<Rightarrow> scan_files data_dir h cutoff st' rest)"

definition scan_dir ::
  "string \<Rightarrow> host \<Rightarrow> int \<Rightarrow> file_entry list \<Rightarrow>
   exn + (string \<times> triple list) list \<times> string list" where
  "scan_dir data_dir h cutoff listing = scan_files data_dir h cutoff ([], []) listing"

subsection \<open>Second loop: keep only the newest files of each category\<close>

text \<open>
  \<^verbatim>\<open>files.sort(key=lambda x: x[2], reverse=True)\<close> is stable: files of equal time keep
  their order. \<^const>\<open>sort_key\<close> is a stable insertion sort, ascending in the key, so
  the key is the negated time.
\<close>

definition sort_newest_first :: "triple list \<Rightarrow> triple list" where
  "sort_newest_first files = sort_key (\<lambda>x. - snd (snd x)) files"

fun mark_excess :: "string list \<Rightarrow> triple list \<Rightarrow> string list" where
  "mark_excess files_to_delete [] = files_to_delete"
| "mark_excess files_to_delete ((filename, file_path, file_time) # rest) =
     mark_excess
       (if file_path \<notin> set files_to_delete then files_to_delete @ [file_path]
        else files_to_delete)
       rest"

definition prune_category :: "int \<Rightarrow> string list \<Rightarrow> string \<times> triple list \<Rightarrow> string list" where
  "prune_category max_files_per_category files_to_delete item =
     (let files = sort_newest_first (snd item) in
      if int (length files) > max_files_per_category
      then mark_excess files_to_delete (slice_from files max_files_per_category)
      else files_to_delete)"

text \<open>
  Lines 165 to 197 on the entries that \<^verbatim>\<open>os.listdir\<close> returned: the list
  \<^verbatim>\<open>files_to_delete\<close> as it stands when the deletion loop starts, or the exception that
  left the function before.
\<close>

definition files_to_delete ::
  "string \<Rightarrow> host \<Rightarrow> int \<Rightarrow> int \<Rightarrow> file_entry list \<Rightarrow> exn + string list" where
  "files_to_delete data_dir h max_age_hours max_files_per_category listing =
     (case cutoff_time h max_age_hours of
        Inl x \<Rightarrow> Inl x
      | Inr cutoff \<Rightarrow>
          (case scan_dir data_dir h cutoff listing of
             Inl x \<Rightarrow> Inl x
           | Inr st \<Rightarrow> Inr (foldl (prune_category max_files_per_category) (snd st) (fst st))))"

subsection \<open>Third loop: delete the marked files\<close>

text \<open>
  \<^verbatim>\<open>os.remove(file_path)\<close> raises \<^verbatim>\<open>OSError\<close> when the file is not there or cannot be
  removed; otherwise the entry leaves the directory.
\<close>

definition os_remove :: "string \<Rightarrow> file_entry list \<Rightarrow> string \<Rightarrow> file_entry list option" where
  "os_remove data_dir listing file_path =
     (if \<exists>f \<in> set listing. path_join data_dir (name f) = file_path \<and> \<not> locked f
      then Some (filter (\<lambda>f. path_join data_dir (name f) \<noteq> file_path) listing)
      else None)"

fun delete_marked ::
  "string \<Rightarrow> string list \<Rightarrow> file_entry list \<times> nat \<times> cleanup_log list \<Rightarrow>
   file_entry list \<times> nat \<times> cleanup_log list" where
  "delete_marked data_dir [] st = st"
| "delete_marked data_dir (file_path # rest) (listing, deleted_count, logged) =
     (case os_remove data_dir listing file_path of
        Some listing' \<Rightarrow> delete_marked data_dir rest (listing', deleted_count + 1, logged)
      | None \<Rightarrow>
          delete_marked data_dir rest
            (listing, deleted_count, logged @ [Failed_to_delete file_path]))"

text \<open>
  The whole function: the file system after the call, \<^verbatim>\<open>deleted_count\<close>, and the lines
  logged; or the exception that left it, with the file system as it was. The cutoff is
  computed before the directory is listed.
\<close>

definition cleanup_old_files ::
  "filesystem \<Rightarrow> host \<Rightarrow> string \<Rightarrow> int \<Rightarrow> int \<Rightarrow>
   exn + filesystem \<times> nat \<times> cleanup_log list" where
  "cleanup_old_files fs h data_dir max_age_hours max_files_per_category =
     (case fs data_dir of
        None \<Rightarrow> Inr (fs, 0, [])
      | Some nd \<Rightarrow>
          (case cutoff_time h max_age_hours of
             Inl x \<Rightarrow> Inl x
           | Inr _ \<Rightarrow>
               (case os_listdir nd of
                  Inl x \<Rightarrow> Inl x
                | Inr listing \<Rightarrow>
                    (case files_to_delete data_dir h max_age_hours max_files_per_category
                            listing of
                       Inl x \<Rightarrow> Inl x
                     | Inr marked \<Rightarrow>
                         (case delete_marked data_dir marked (listing, 0, []) of
                            (listing', deleted_count, logged) \<Rightarrow>
                              Inr (fs(data_dir \<mapsto> Directory listing'), deleted_count,
                                   if deleted_count > 0
                                   then logged @ [Cleaned_up deleted_count]
                                   else logged))))))"

section \<open>Parsed JSON and the Python operations on it\<close>

text \<open>
  What \<^verbatim>\<open>response.json()\<close> returns: \<^verbatim>\<open>None\<close>, \<^verbatim>\<open>bool\<close>, a number (\<^verbatim>\<open>int\<close> or a finite
  \<^verbatim>\<open>float\<close>, kept as the rational it denotes), \<^verbatim>\<open>str\<close>, \<^verbatim>\<open>list\<close>, or \<^verbatim>\<open>dict\<close> (string keys,
  in insertion order).
\<close>

datatype json =
    JNull
  | JBool bool
  | JNum rat
  | JStr string
  | JArr "json list"
  | JObj "(string \<times> json) list"

text \<open>\<^verbatim>\<open>a == b\<close> and \<^verbatim>\<open>a > b\<close> on parsed JSON; \<^const>\<open>None\<close> is Python's \<^verbatim>\<open>TypeError\<close>.\<close>

fun py_eq :: "json \<Rightarrow> json \<Rightarrow> bool" where
  "py_eq JNull JNull = True"
| "py_eq (JBool a) (JBool b) = (a = b)"
| "py_eq (JBool a) (JNum y) = (of_bool a = y)"
| "py_eq (JNum x) (JBool b) = (x = of_bool b)"
| "py_eq (JNum x) (JNum y) = (x = y)"
| "py_eq (JStr s) (JStr t) = (s = t)"
| "py_eq (JArr xs) (JArr ys) = list_all2 py_eq xs ys"
| "py_eq (JObj xs) (JObj ys) =
     (length xs = length ys \<and>
      list_all (\<lambda>kv. case map_of ys (fst kv) of
                        None \<Rightarrow> False
                      | Some w \<Rightarrow> py_eq (snd kv) w) xs)"
| "py_eq _ _ = False"

fun py_gt :: "json \<Rightarrow> json \<Rightarrow> bool option" where
  "py_gt (JNum x) (JNum y) = Some (x > y)"
| "py_gt (JNum x) (JBool b) = Some (x > of_bool b)"
| "py_gt (JBool a) (JNum y) = Some (of_bool a > y)"
| "py_gt (JBool a) (JBool b) = Some (a \<and> \<not> b)"
| "py_gt (JStr s) (JStr t) = Some (s > t)"
| "py_gt (JArr []) (JArr ys) = Some False"
| "py_gt (JArr (x # xs)) (JArr []) = Some True"
| "py_gt (JArr (x # xs)) (JArr (y # ys)) =
     (if py_eq x y then py_gt (JArr xs) (JArr ys) else py_gt x y)"
| "py_gt _ _ = None"

text \<open>\<^verbatim>\<open>doc.get(key, default)\<close>: only a dict has the method.\<close>

fun dict_get :: "json \<Rightarrow> string \<Rightarrow> json \<Rightarrow> exn + json" where
  "dict_get (JObj kvs) key dflt =
     (case map_of kvs key of None \<Rightarrow> Inr dflt | Some v \<Rightarrow> Inr v)"
| "dict_get _ key dflt = Inl AttributeError"

text \<open>\<^verbatim>\<open>f[key]\<close> for a string key: a dict looks it up, every other value refuses.\<close>

fun subscript :: "json \<Rightarrow> string \<Rightarrow> exn + json" where
  "subscript (JObj kvs) key =
     (case map_of kvs key of None \<Rightarrow> Inl (KeyError key) | Some v \<Rightarrow> Inr v)"
| "subscript _ key = Inl TypeError"

text \<open>
  Iterating a value: a list gives its elements, a dict its keys, a string its
  characters; nothing else is iterable.
\<close>

fun py_iter :: "json \<Rightarrow> exn + json list" where
  "py_iter (JArr xs) = Inr xs"
| "py_iter (JObj kvs) = Inr (map (\<lambda>kv. JStr (fst kv)) kvs)"
| "py_iter (JStr s) = Inr (map (\<lambda>c. JStr [c]) s)"
| "py_iter _ = Inl TypeError"

text \<open>
  \<^verbatim>\<open>max(files, key=lambda f: f['timestamp'])\<close>: the first element is the candidate, a
  later one replaces it when its key is greater (\<^verbatim>\<open>>\<close>), so the first of several
  maxima wins; an empty sequence raises \<^verbatim>\<open>ValueError\<close>.
\<close>

fun max_loop :: "json \<Rightarrow> json \<Rightarrow> json list \<Rightarrow> exn + json" where
  "max_loop best best_key [] = Inr best"
| "max_loop best best_key (f # fs) =
     (case subscript f ''timestamp'' of
        Inl e \<Rightarrow> Inl e
      | Inr k \<Rightarrow>
          (case py_gt k best_key of
             None \<Rightarrow> Inl TypeError
           | Some True \<Rightarrow> max_loop f k fs
           | Some False \<Rightarrow> max_loop best best_key fs))"

definition max_by_timestamp :: "json list \<Rightarrow> exn + json" where
  "max_by_timestamp files =
     (case files of
        [] \<Rightarrow> Inl ValueError
      | f # fs \<Rightarrow>
          (case subscript f ''timestamp'' of
             Inl e \<Rightarrow> Inl e
           | Inr k \<Rightarrow> max_loop f k fs))"

section \<open>HTTP: the server, plain requests, the retrying session\<close>

datatype http_method = GET | HEAD

type_synonym request = "http_method \<times> string"

text \<open>
  What comes back for one request: no connection, no answer in time, an answer with a
  status and a body, or an answer with a status and a \<^verbatim>\<open>Location\<close> header (the
  absolute URL it names) and no body.
\<close>

datatype reply =
    Connection_failed
  | Timed_out
  | Answer nat string
  | Moved nat string

record response =
  status_code :: nat
  body :: string

text \<open>
  The environment of one run. The server answers a request knowing the requests sent
  before it, so it may answer the same URL differently each time. \<^verbatim>\<open>json_loads\<close> is
  \<^verbatim>\<open>response.json()\<close> on a body: the parsed value, or the exception raised
  (\<^verbatim>\<open>JSONDecodeError\<close> for a text that is not JSON, \<^verbatim>\<open>ValueError\<close> for the same before
  requests 2.27, \<^verbatim>\<open>RecursionError\<close> for a text nested too deeply). \<^verbatim>\<open>py_str\<close> is
  \<^verbatim>\<open>str()\<close> on a parsed value that is not a string, \<^verbatim>\<open>findall_efield\<close> is
  \<^verbatim>\<open>re.findall\<close> with the pattern of the manual scan, \<^verbatim>\<open>utcnow_stamp\<close> is
  \<^verbatim>\<open>datetime.utcnow().strftime("%Y%m%d%H%M%S")\<close> read after the given requests, and
  \<^verbatim>\<open>open_error\<close> is the exception that \<^verbatim>\<open>open(file_path, "w")\<close> or \<^verbatim>\<open>json.dump\<close>
  raises for a path, if any (\<^verbatim>\<open>FileNotFoundError\<close> when the key has a \<^verbatim>\<open>/\<close> and the
  directory it names is not there).
\<close>

record env =
  server :: "request list \<Rightarrow> request \<Rightarrow> reply"
  json_loads :: "string \<Rightarrow> exn + json"
  py_str :: "json \<Rightarrow> string"
  findall_efield :: "string \<Rightarrow> string list"
  utcnow_stamp :: "request list \<Rightarrow> string"
  open_error :: "string \<Rightarrow> exn option"

datatype log_line =
    Found_latest_from_index string
  | No_index_file exn
  | Found_latest_alias string
  | No_latest_alias exn
  | Attempting_manual_discovery string
  | Manually_discovered string
  | Unable_to_list exn
  | No_latest_file string
  | All_variations_failed string
  | Successfully_fetched string string
  | Error_fetching string exn

text \<open>
  The state a run changes: the requests that reached the network, oldest first; the
  snapshot files written; the lines logged.
\<close>

record world =
  sent :: "request list"
  snapshots :: "string \<Rightarrow> json option"
  logged :: "log_line list"

text \<open>
  \<^verbatim>\<open>Retry(total=5, backoff_factor=1, status_forcelist=[429, 500, 502, 503, 504])\<close>,
  mounted on the session of \<^verbatim>\<open>fetch_noaa_data\<close>. \<^verbatim>\<open>total\<close> (here \<^verbatim>\<open>total'\<close>) counts the retries after the
  first attempt. The backoff only sets the pause before a retry.
\<close>

record retry =
  total' :: nat
  backoff_factor :: nat
  status_forcelist :: "nat list"

definition session_retry :: retry where
  "session_retry = \<lparr>total' = 5, backoff_factor = 1,
                    status_forcelist = [429, 500, 502, 503, 504]\<rparr>"

text \<open>
  One \<^verbatim>\<open>urlopen\<close> through the adapter, by the number of retries left: a failed
  connection, a timeout or a status of the force list is retried while retries are
  left, and raises when none is; any other answer is the response, with its
  \<^verbatim>\<open>Location\<close> header if it has one. The adapter itself follows no redirect.
\<close>

fun urlopen ::
  "env \<Rightarrow> nat list \<Rightarrow> request \<Rightarrow> nat \<Rightarrow> world \<Rightarrow>
   (exn + response \<times> string option) \<times> world" where
  "urlopen e forcelist rq 0 w =
     (let w' = w\<lparr>sent := sent w @ [rq]\<rparr> in
      case server e (sent w) rq of
        Connection_failed \<Rightarrow> (Inl ConnectionError, w')
      | Timed_out \<Rightarrow> (Inl Timeout, w')
      | Answer st txt \<Rightarrow>
          if st \<in> set forcelist then (Inl RetryError, w')
          else (Inr (\<lparr>status_code = st, body = txt\<rparr>, None), w')
      | Moved st loc \<Rightarrow>
          if st \<in> set forcelist then (Inl RetryError, w')
          else (Inr (\<lparr>status_code = st, body = []\<rparr>, Some loc), w'))"
| "urlopen e forcelist rq (Suc retries) w =
     (let w' = w\<lparr>sent := sent w @ [rq]\<rparr> in
      case server e (sent w) rq of
        Connection_failed \<Rightarrow> urlopen e forcelist rq retries w'
      | Timed_out \<Rightarrow> urlopen e forcelist rq retries w'
      | Answer st txt \<Rightarrow>
          if st \<in> set forcelist then urlopen e forcelist rq retries w'
          else (Inr (\<lparr>status_code = st, body = txt\<rparr>, None), w')
      | Moved st loc \<Rightarrow>
          if st \<in> set forcelist then urlopen e forcelist rq retries w'
          else (Inr (\<lparr>status_code = st, body = []\<rparr>, Some loc), w'))"

text \<open>
  A \<^verbatim>\<open>GET\<close> of requests follows redirects (\<^verbatim>\<open>allow_redirects=True\<close>): a response
  with a \<^verbatim>\<open>Location\<close> header and status 301, 302, 303, 307 or 308 is answered by a
  \<^verbatim>\<open>GET\<close> of the URL it names, through the same adapter with its full retry budget.
  A session follows at most 30 redirects (\<^verbatim>\<open>max_redirects\<close>) and raises
  \<^verbatim>\<open>TooManyRedirects\<close> at the next one.
\<close>

definition get_redirect_target :: "response \<times> string option \<Rightarrow> string option" where
  "get_redirect_target r =
     (case snd r of
        None \<Rightarrow> None
      | Some loc \<Rightarrow>
          if status_code (fst r) \<in> {301, 302, 303, 307, 308} then Some loc else None)"

fun send ::
  "env \<Rightarrow> nat list \<Rightarrow> nat \<Rightarrow> nat \<Rightarrow> string \<Rightarrow> world \<Rightarrow> (exn + response) \<times> world" where
  "send e forcelist retries 0 url w =
     (case urlopen e forcelist (GET, url) retries w of
        (Inl x, w') \<Rightarrow> (Inl x, w')
      | (Inr r, w') \<Rightarrow>
          (case get_redirect_target r of
             None \<Rightarrow> (Inr (fst r), w')
           | Some loc \<Rightarrow> (Inl TooManyRedirects, w')))"
| "send e forcelist retries (Suc redirects) url w =
     (case urlopen e forcelist (GET, url) retries w of
        (Inl x, w') \<Rightarrow> (Inl x, w')
      | (Inr r, w') \<Rightarrow>
          (case get_redirect_target r of
             None \<Rightarrow> (Inr (fst r), w')
           | Some loc \<Rightarrow> send e forcelist retries redirects loc w'))"

definition max_redirects :: nat where
  "max_redirects = 30"

text \<open>
  \<^verbatim>\<open>requests.get(url, timeout=...)\<close> and \<^verbatim>\<open>requests.head(url, timeout=...)\<close>: the
  module-level functions use a fresh default session, whose adapter does not retry and
  has no force list. \<^verbatim>\<open>requests.head\<close> sets \<^verbatim>\<open>allow_redirects=False\<close>: one request is
  sent and its answer is the response.
\<close>

definition requests_get :: "env \<Rightarrow> string \<Rightarrow> world \<Rightarrow> (exn + response) \<times> world" where
  "requests_get e url w = send e [] 0 max_redirects url w"

definition requests_head :: "env \<Rightarrow> string \<Rightarrow> world \<Rightarrow> (exn + response) \<times> world" where
  "requests_head e url w =
     (case urlopen e [] (HEAD, url) 0 w of
        (Inl x, w') \<Rightarrow> (Inl x, w')
      | (Inr r, w') \<Rightarrow> (Inr (fst r), w'))"

text \<open>\<^verbatim>\<open>session.get(url, timeout=10)\<close> on the session with the retry policy mounted.\<close>

definition session_get :: "env \<Rightarrow> string \<Rightarrow> world \<Rightarrow> (exn + response) \<times> world" where
  "session_get e url w =
     send e (status_forcelist session_retry) (total' session_retry) max_redirects url w"

definition raise_for_status :: "response \<Rightarrow> exn + unit" where
  "raise_for_status r =
     (if 400 \<le> status_code r \<and> status_code r < 600 then Inl (HTTPError (status_code r))
      else Inr ())"

definition response_json :: "env \<Rightarrow> response \<Rightarrow> exn + json" where
  "response_json e r = json_loads e (body r)"

text \<open>A parsed value inside an f-string.\<close>

definition py_format :: "env \<Rightarrow> json \<Rightarrow> string" where
  "py_format e v = (case v of JStr s \<Rightarrow> s | _ \<Rightarrow> py_str e v)"

definition logging :: "log_line \<Rightarrow> world \<Rightarrow> world" where
  "logging l w = w\<lparr>logged := logged w @ [l]\<rparr>"

section \<open>The endpoint catalog\<close>

text \<open>
  A target is a Python value: a string, or a list of strings. A string that ends in
  \<^verbatim>\<open>/\<close> is a directory.
\<close>

datatype endpoint = Path string | Alternates "string list"

definition NOAA_BASE_URL :: string where
  "NOAA_BASE_URL = ''https://services.swpc.noaa.gov/json/''"

definition DATA_DIR :: string where
  "DATA_DIR = ''noaa_data''"

definition PRIMARY_ENDPOINTS :: "(string \<times> endpoint) list" where
  "PRIMARY_ENDPOINTS =
     [(''solar_radiation_xray'', Path ''goes/primary/xrays-1-day.json''),
      (''solar_radiation_xray_7d'', Path ''goes/primary/xrays-7-day.json''),
      (''xray_flares'', Path ''goes/primary/xray-flares-latest.json''),
      (''geomagnetic_dst'', Path ''geospace/geospace_dst_1_hour.json''),
      (''geomagnetic_kp'', Path ''geospace/geospace_pred_est_kp_1_hour.json''),
      (''solar_wind_swepam'', Path ''ace/swepam/ace_swepam_1h.json''),
      (''solar_protons'', Path ''goes/primary/integral-protons-1-day.json''),
      (''solar_electrons'', Path ''goes/primary/integral-electrons-1-day.json''),
      (''magnetometers'', Path ''goes/primary/magnetometers-1-day.json''),
      (''cosmic_rays_sis'', Path ''ace/sis/ace_sis_32s.json'')]"

definition SECONDARY_ENDPOINTS :: "(string \<times> endpoint) list" where
  "SECONDARY_ENDPOINTS =
     [(''geomagnetic_dst_7d'', Path ''geospace/geospace_dst_7_day.json''),
      (''geomagnetic_kp_7d'',
         Alternates [''geospace/geospce_pred_est_kp_7_day.json'',
                     ''geospace/geosapce_pred_est_kp_7_day.json'']),
      (''solar_wind_density'', Path ''ace/swepam/ace_swepam_1h.json''),
      (''solar_wind_speed'', Path ''dscovr/dscovr_mag_1s.json''),
      (''total_electron_content'', Path ''geospace/geospace_pred_est_kp_1_hour.json''),
      (''plasma_pressure'', Path ''ace/swepam/ace_swepam_1h.json''),
      (''schumann_proxy'', Path ''goes/primary/magnetometers-7-day.json''),
      (''integral_proton_flux'', Path ''goes/primary/integral-proton-fluence-7-day.json''),
      (''integral_electron_flux'',
         Path ''goes/primary/integral-electron-fluence-7-day.json'')]"

definition TERTIARY_ENDPOINTS :: "(string \<times> endpoint) list" where
  "TERTIARY_ENDPOINTS =
     [(''electric_field_us_canada'', Path ''lists/rgeojson/US-Canada-1D/''),
      (''electric_field_interMag'', Path ''lists/rgeojson/InterMagEarthScope/''),
      (''differential_protons_1d'', Path ''goes/primary/differential-protons-1-day.json''),
      (''differential_protons_3d'', Path ''goes/primary/differential-protons-3-day.json''),
      (''differential_electrons_1d'',
         Path ''goes/primary/differential-electrons-1-day.json''),
      (''differential_electrons_3d'',
         Path ''goes/primary/differential-electrons-3-day.json''),
      (''ace_magnetic_field_1h'', Path ''ace/mag/ace_mag_1h.json''),
      (''ace_epam_5m'', Path ''ace/epam/ace_epam_5m.json'')]"

text \<open>A catalog value inside an f-string.\<close>

definition format_endpoint :: "env \<Rightarrow> endpoint \<Rightarrow> string" where
  "format_endpoint e ep =
     (case ep of Path p \<Rightarrow> p | Alternates ps \<Rightarrow> py_str e (JArr (map JStr ps)))"

section \<open>The latest-file resolver: \<^verbatim>\<open>get_latest_file_url\<close>\<close>

text \<open>
  The body of the first \<^verbatim>\<open>try\<close> once the status is 200:
  \<^verbatim>\<open>max(response.json().get("files", []), key=lambda f: f['timestamp'])['filename']\<close>.
\<close>

definition latest_from_index :: "env \<Rightarrow> response \<Rightarrow> exn + json" where
  "latest_from_index e r =
     (case response_json e r of
        Inl x \<Rightarrow> Inl x
      | Inr doc \<Rightarrow>
          (case dict_get doc ''files'' (JArr []) of
             Inl x \<Rightarrow> Inl x
           | Inr files \<Rightarrow>
               (case py_iter files of
                  Inl x \<Rightarrow> Inl x
                | Inr fs \<Rightarrow>
                    (case max_by_timestamp fs of
                       Inl x \<Rightarrow> Inl x
                     | Inr f \<Rightarrow> subscript f ''filename''))))"

text \<open>
  Each strategy gives the URL it found, or \<^const>\<open>None\<close> when control falls through to
  the next one. Every \<^verbatim>\<open>except Exception\<close> of the resolver catches all of \<^typ>\<open>exn\<close>.
\<close>

definition index_lookup :: "env \<Rightarrow> string \<Rightarrow> string \<Rightarrow> world \<Rightarrow> string option \<times> world" where
  "index_lookup e base_url directory_path w =
     (let index_url = base_url @ directory_path @ ''index.json'' in
      case requests_get e index_url w of
        (Inl x, w') \<Rightarrow> (None, logging (No_index_file x) w')
      | (Inr r, w') \<Rightarrow>
          if status_code r = 200
          then (case latest_from_index e r of
                  Inl x \<Rightarrow> (None, logging (No_index_file x) w')
                | Inr latest_file \<Rightarrow>
                    (Some (base_url @ directory_path @ py_format e latest_file),
                     logging (Found_latest_from_index (py_format e latest_file)) w'))
          else (None, w'))"

definition alias_probe :: "env \<Rightarrow> string \<Rightarrow> string \<Rightarrow> world \<Rightarrow> string option \<times> world" where
  "alias_probe e base_url directory_path w =
     (let latest_url = base_url @ directory_path @ ''latest.json'' in
      case requests_head e latest_url w of
        (Inl x, w') \<Rightarrow> (None, logging (No_latest_alias x) w')
      | (Inr r, w') \<Rightarrow>
          if status_code r = 200
          then (Some latest_url, logging (Found_latest_alias latest_url) w')
          else (None, w'))"

text \<open>
  \<^verbatim>\<open>sorted(filenames, reverse=True)\<close> on strings: equal strings are the same value, so
  the stable descending sort is the ascending sort reversed.
\<close>

definition sorted_reverse :: "string list \<Rightarrow> string list" where
  "sorted_reverse xs = rev (sort xs)"

definition manual_scan ::
  "env \<Rightarrow> string \<Rightarrow> string \<Rightarrow> string \<Rightarrow> world \<Rightarrow> string option \<times> world" where
  "manual_scan e base_url directory_path directory_key w =
     (let list_url = base_url @ directory_path in
      case requests_get e list_url (logging (Attempting_manual_discovery directory_key) w) of
        (Inl x, w') \<Rightarrow> (None, logging (Unable_to_list x) w')
      | (Inr r, w') \<Rightarrow>
          if status_code r = 200
          then (case sorted_reverse (findall_efield e (body r)) of
                  [] \<Rightarrow> (None, w')
                | latest_file # _ \<Rightarrow>
                    (Some (base_url @ directory_path @ latest_file),
                     logging (Manually_discovered latest_file) w'))
          else (None, w'))"

text \<open>
  The function. The lookup in \<^verbatim>\<open>TERTIARY_ENDPOINTS\<close> stands before the first \<^verbatim>\<open>try\<close>: a
  missing key leaves the function as \<^verbatim>\<open>KeyError\<close>. \<^term>\<open>Inr None\<close> is the returned
  \<^verbatim>\<open>None\<close>.
\<close>

definition get_latest_file_url ::
  "env \<Rightarrow> string \<Rightarrow> string \<Rightarrow> world \<Rightarrow> (exn + string option) \<times> world" where
  "get_latest_file_url e base_url directory_key w =
     (case map_of TERTIARY_ENDPOINTS directory_key of
        None \<Rightarrow> (Inl (KeyError directory_key), w)
      | Some ep \<Rightarrow>
          (let directory_path = format_endpoint e ep in
           case index_lookup e base_url directory_path w of
             (Some url, w1) \<Rightarrow> (Inr (Some url), w1)
           | (None, w1) \<Rightarrow>
               (case alias_probe e base_url directory_path w1 of
                  (Some url, w2) \<Rightarrow> (Inr (Some url), w2)
                | (None, w2) \<Rightarrow>
                    (case manual_scan e base_url directory_path directory_key w2 of
                       (Some url, w3) \<Rightarrow> (Inr (Some url), w3)
                     | (None, w3) \<Rightarrow> (Inr None, logging (No_latest_file directory_key) w3)))))"

section \<open>The fetch orchestrator: \<^verbatim>\<open>fetch_noaa_data\<close>\<close>

text \<open>
  The inner \<^verbatim>\<open>for ep in endpoint\<close> with its \<^verbatim>\<open>else\<close>: \<^term>\<open>Inr (Some url)\<close> is the
  \<^verbatim>\<open>break\<close> with \<^verbatim>\<open>url\<close> bound, \<^term>\<open>Inr None\<close> the exhausted loop. An exception that
  is not a \<^verbatim>\<open>RequestException\<close> is not caught.
\<close>

fun try_alternates :: "env \<Rightarrow> string list \<Rightarrow> world \<Rightarrow> (exn + string option) \<times> world" where
  "try_alternates e [] w = (Inr None, w)"
| "try_alternates e (ep # eps) w =
     (let url = NOAA_BASE_URL @ ep in
      case session_get e url w of
        (Inl x, w') \<Rightarrow>
          if is_RequestException x then try_alternates e eps w' else (Inl x, w')
      | (Inr r, w') \<Rightarrow>
          (case raise_for_status r of
             Inl x \<Rightarrow>
               if is_RequestException x then try_alternates e eps w' else (Inl x, w')
           | Inr _ \<Rightarrow> (Inr (Some url), w')))"

text \<open>
  The \<^verbatim>\<open>try\<close> block that ends the loop body, lines 136 to 152: request, status check,
  parse, store, write the snapshot. \<^verbatim>\<open>except RequestException\<close> logs and goes on;
  any other exception leaves the function. The key is stored before the snapshot is
  written.
\<close>

definition caught ::
  "string \<Rightarrow> exn \<Rightarrow> (string \<Rightarrow> json option) \<Rightarrow> world \<Rightarrow>
   (exn + (string \<Rightarrow> json option)) \<times> world" where
  "caught key x fetched_data w =
     (if is_RequestException x then (Inr fetched_data, logging (Error_fetching key x) w)
      else (Inl x, w))"

definition fetch_url ::
  "env \<Rightarrow> string \<Rightarrow> string \<Rightarrow> string \<Rightarrow> (string \<Rightarrow> json option) \<Rightarrow> world \<Rightarrow>
   (exn + (string \<Rightarrow> json option)) \<times> world" where
  "fetch_url e category key url fetched_data w =
     (case session_get e url w of
        (Inl x, w') \<Rightarrow> caught key x fetched_data w'
      | (Inr r, w') \<Rightarrow>
          (case raise_for_status r of
             Inl x \<Rightarrow> caught key x fetched_data w'
           | Inr _ \<Rightarrow>
               (case response_json e r of
                  Inl x \<Rightarrow> caught key x fetched_data w'
                | Inr data \<Rightarrow>
                    (let timestamp = utcnow_stamp e (sent w');
                         file_path =
                           path_join DATA_DIR
                             (category @ ''_'' @ key @ ''_'' @ timestamp @ ''.json'')
                     in case open_error e file_path of
                          Some x \<Rightarrow> caught key x (fetched_data(key \<mapsto> data)) w'
                        | None \<Rightarrow>
                            (Inr (fetched_data(key \<mapsto> data)),
                             logging (Successfully_fetched key category)
                               (w'\<lparr>snapshots := (snapshots w')(file_path \<mapsto> data)\<rparr>))))))"

text \<open>
  One iteration of \<^verbatim>\<open>for key, endpoint in data_endpoints.items()\<close>. Lines 117 to 134
  bind \<^verbatim>\<open>url\<close> or \<^verbatim>\<open>continue\<close> (\<^term>\<open>Inr None\<close>); \<^verbatim>\<open>if not url\<close> holds for \<^verbatim>\<open>None\<close> and
  for the empty string. The \<^verbatim>\<open>try\<close> block then fetches \<^verbatim>\<open>url\<close>.
\<close>

definition resolve_url ::
  "env \<Rightarrow> string \<Rightarrow> endpoint \<Rightarrow> world \<Rightarrow> (exn + string option) \<times> world" where
  "resolve_url e key endpoint w =
     (case endpoint of
        Alternates eps \<Rightarrow>
          (case try_alternates e eps w of
             (Inl x, w') \<Rightarrow> (Inl x, w')
           | (Inr None, w') \<Rightarrow> (Inr None, logging (All_variations_failed key) w')
           | (Inr (Some url), w') \<Rightarrow> (Inr (Some url), w'))
      | Path p \<Rightarrow>
          if endswith p ''/''
          then (case get_latest_file_url e NOAA_BASE_URL key w of
                  (Inl x, w') \<Rightarrow> (Inl x, w')
                | (Inr None, w') \<Rightarrow> (Inr None, w')
                | (Inr (Some url), w') \<Rightarrow>
                    if url = [] then (Inr None, w') else (Inr (Some url), w'))
          else (Inr (Some (NOAA_BASE_URL @ p)), w))"

definition fetch_key ::
  "env \<Rightarrow> string \<Rightarrow> string \<Rightarrow> endpoint \<Rightarrow> (string \<Rightarrow> json option) \<Rightarrow> world \<Rightarrow>
   (exn + (string \<Rightarrow> json option)) \<times> world" where
  "fetch_key e category key endpoint fetched_data w =
     (case resolve_url e key endpoint w of
        (Inl x, w') \<Rightarrow> (Inl x, w')
      | (Inr None, w') \<Rightarrow> (Inr fetched_data, w')
      | (Inr (Some url), w') \<Rightarrow> fetch_url e category key url fetched_data w')"

text \<open>
  The loop over the items of the dict, in its order; an exception that nothing catches
  ends the run (\<^const>\<open>Inl\<close>), otherwise \<^verbatim>\<open>fetched_data\<close> is returned.
\<close>

fun fetch_loop ::
  "env \<Rightarrow> string \<Rightarrow> (string \<times> endpoint) list \<Rightarrow> (string \<Rightarrow> json option) \<Rightarrow> world \<Rightarrow>
   (exn + (string \<Rightarrow> json option)) \<times> world" where
  "fetch_loop e category [] fetched_data w = (Inr fetched_data, w)"
| "fetch_loop e category ((key, endpoint) # rest) fetched_data w =
     (case fetch_key e category key endpoint fetched_data w of
        (Inl x, w') \<Rightarrow> (Inl x, w')
      | (Inr fetched_data', w') \<Rightarrow> fetch_loop e category rest fetched_data' w')"

definition fetch_noaa_data ::
  "env \<Rightarrow> (string \<times> endpoint) list \<Rightarrow> string \<Rightarrow> world \<Rightarrow>
   (exn + (string \<Rightarrow> json option)) \<times> world" where
  "fetch_noaa_data e data_endpoints category w =
     fetch_loop e category data_endpoints Map.empty w"

section \<open>Notions used to state the properties\<close>

subsection \<open>Retention\<close>

text \<open>
  The tests and values of the first loop, by name: the extension test, the category of
  a file name (\<^const>\<open>None\<close> below three tokens), \<^verbatim>\<open>file_time\<close> where lines 175 and 176
  raise nothing, the files for which they raise nothing, the directories in which they
  raise for no file with the extension, the triple stored for a
  file, the triples of one category in directory order, the paths the age check marks,
  the paths the count rule marks in a category, and the files the deletion loop leaves
  in the directory.
\<close>

definition is_json :: "file_entry \<Rightarrow> bool" where
  "is_json f = endswith (name f) ''.json''"

definition category_of :: "string \<Rightarrow> string option" where
  "category_of filename =
     (let parts = str_split CHR ''_'' filename
      in if 3 \<le> length parts then Some (str_join ''_'' (butlast parts)) else None)"

definition file_time :: "host \<Rightarrow> file_entry \<Rightarrow> int" where
  "file_time h f = st_mtime f + utcoffset h (st_mtime f)"

definition readable :: "host \<Rightarrow> file_entry \<Rightarrow> bool" where
  "readable h f =
     (\<not> dangling f \<and> datetime_min \<le> file_time h f \<and> file_time h f \<le> datetime_max)"

definition sweepable :: "host \<Rightarrow> file_entry list \<Rightarrow> bool" where
  "sweepable h listing = list_all (\<lambda>f. is_json f \<longrightarrow> readable h f) listing"

definition triple_of :: "string \<Rightarrow> host \<Rightarrow> file_entry \<Rightarrow> triple" where
  "triple_of data_dir h f = (name f, path_join data_dir (name f), file_time h f)"

definition members :: "string \<Rightarrow> host \<Rightarrow> string \<Rightarrow> file_entry list \<Rightarrow> triple list" where
  "members data_dir h c listing =
     map (triple_of data_dir h)
       (filter (\<lambda>f. is_json f \<and> category_of (name f) = Some c) listing)"

definition aged :: "string \<Rightarrow> host \<Rightarrow> int \<Rightarrow> file_entry list \<Rightarrow> string list" where
  "aged data_dir h cutoff listing =
     map (\<lambda>f. path_join data_dir (name f))
       (filter (\<lambda>f. is_json f \<and> file_time h f < cutoff) listing)"

text \<open>
  The files of one category in directory order, and a list of files from the most
  recently modified to the least, files modified at the same time in the order they
  had.
\<close>

definition category_files :: "string \<Rightarrow> file_entry list \<Rightarrow> file_entry list" where
  "category_files c listing =
     filter (\<lambda>f. is_json f \<and> category_of (name f) = Some c) listing"

definition most_recent_first :: "file_entry list \<Rightarrow> file_entry list" where
  "most_recent_first files = sort_key (\<lambda>f. - st_mtime f) files"

definition excess :: "int \<Rightarrow> triple list \<Rightarrow> string list" where
  "excess n files = map (fst \<circ> snd) (drop (nat n) (sort_newest_first files))"

definition kept :: "string \<Rightarrow> string list \<Rightarrow> file_entry \<Rightarrow> bool" where
  "kept d del f = (path_join d (name f) \<notin> set del \<or> locked f)"

text \<open>
  What a call did to the directory. Every exception that leaves
  \<^verbatim>\<open>cleanup_old_files\<close> is raised before the deletion loop starts, so a call that
  raises has deleted nothing and leaves the file system as it was.
\<close>

definition deleted_count_of :: "exn + filesystem \<times> nat \<times> cleanup_log list \<Rightarrow> nat" where
  "deleted_count_of r = (case r of Inl x \<Rightarrow> 0 | Inr (fs', deleted_count, lg) \<Rightarrow> deleted_count)"

definition filesystem_after ::
  "filesystem \<Rightarrow> exn + filesystem \<times> nat \<times> cleanup_log list \<Rightarrow> filesystem" where
  "filesystem_after fs r = (case r of Inl x \<Rightarrow> fs | Inr (fs', deleted_count, lg) \<Rightarrow> fs')"

subsection \<open>The index of a directory\<close>

text \<open>
  The entries that an index document lists; timestamps that are numbers, booleans or
  strings; and \<^verbatim>\<open>g['timestamp'] > f['timestamp']\<close>.
\<close>

definition listed_files :: "env \<Rightarrow> string \<Rightarrow> json list" where
  "listed_files e tx =
     (case json_loads e tx of
        Inr (JObj kvs) \<Rightarrow> (case map_of kvs ''files'' of Some (JArr fs) \<Rightarrow> fs | _ \<Rightarrow> [])
      | _ \<Rightarrow> [])"

fun scalar :: "json \<Rightarrow> bool" where
  "scalar (JNum x) = True"
| "scalar (JBool b) = True"
| "scalar (JStr s) = True"
| "scalar _ = False"

definition scalar_timestamp :: "json \<Rightarrow> bool" where
  "scalar_timestamp f = (case subscript f ''timestamp'' of Inr k \<Rightarrow> scalar k | Inl x \<Rightarrow> False)"

definition newer :: "json \<Rightarrow> json \<Rightarrow> bool" where
  "newer g f =
     (case (subscript g ''timestamp'', subscript f ''timestamp'') of
        (Inr a, Inr b) \<Rightarrow> py_gt a b = Some True
      | _ \<Rightarrow> False)"

subsection \<open>Example environments\<close>

text \<open>
  A server that follows a script: the replies to a request, one for each time it is
  sent, the last of them from then on; \<^verbatim>\<open>otherwise\<close> answers a request that the script
  does not have. The parser knows the listed documents and rejects every other text
  with \<^verbatim>\<open>JSONDecodeError\<close>; the pattern of the manual scan matches the listed file
  names in a listed page; every snapshot can be written.
\<close>

fun nth_or_last :: "reply \<Rightarrow> reply list \<Rightarrow> nat \<Rightarrow> reply" where
  "nth_or_last otherwise [] n = otherwise"
| "nth_or_last otherwise [r] n = r"
| "nth_or_last otherwise (r # rs) 0 = r"
| "nth_or_last otherwise (r # rs) (Suc n) = nth_or_last otherwise rs n"

definition scripted ::
  "reply \<Rightarrow> (request \<times> reply list) list \<Rightarrow> request list \<Rightarrow> request \<Rightarrow> reply" where
  "scripted otherwise script hist rq =
     (case map_of script rq of
        None \<Rightarrow> otherwise
      | Some rs \<Rightarrow> nth_or_last otherwise rs (length (filter (\<lambda>x. x = rq) hist)))"

definition example_env ::
  "reply \<Rightarrow> (request \<times> reply list) list \<Rightarrow> (string \<times> json) list \<Rightarrow>
   (string \<times> string list) list \<Rightarrow> env" where
  "example_env otherwise script documents listings =
     \<lparr>server = scripted otherwise script,
      json_loads =
        (\<lambda>s. case map_of documents s of None \<Rightarrow> Inl JSONDecodeError | Some v \<Rightarrow> Inr v),
      py_str = (\<lambda>v. []),
      findall_efield = (\<lambda>s. case map_of listings s of None \<Rightarrow> [] | Some fs \<Rightarrow> fs),
      utcnow_stamp = (\<lambda>hist. ''20250220120000''),
      open_error = (\<lambda>file_path. None)\<rparr>"

definition world0 :: world where
  "world0 = \<lparr>sent = [], snapshots = Map.empty, logged = []\<rparr>"

definition always_503 :: env where
  "always_503 = example_env (Answer 503 []) [] [] []"

definition flaky_mirror :: env where
  "flaky_mirror =
     example_env Connection_failed
       [((GET, NOAA_BASE_URL @ ''geospace/geospce_pred_est_kp_7_day.json''),
           [Answer 404 []]),
        ((GET, NOAA_BASE_URL @ ''geospace/geosapce_pred_est_kp_7_day.json''),
           [Answer 200 ''[]'', Answer 404 []])]
       [(''[]'', JArr [])] []"

definition steady_mirror :: env where
  "steady_mirror =
     example_env Connection_failed
       [((GET, NOAA_BASE_URL @ ''geospace/geospce_pred_est_kp_7_day.json''),
           [Answer 404 []]),
        ((GET, NOAA_BASE_URL @ ''geospace/geosapce_pred_est_kp_7_day.json''),
           [Answer 200 ''[]''])]
       [(''[]'', JArr [])] []"

definition steady_mirror_unwritable :: env where
  "steady_mirror_unwritable = steady_mirror\<lparr>open_error := (\<lambda>file_path. Some OSError)\<rparr>"

definition html_mirror :: env where
  "html_mirror =
     example_env Connection_failed
       [((GET, NOAA_BASE_URL @ ''geospace/geospce_pred_est_kp_7_day.json''),
           [Answer 404 []]),
        ((GET, NOAA_BASE_URL @ ''geospace/geosapce_pred_est_kp_7_day.json''),
           [Answer 200 ''<html>maintenance</html>''])]
       [] []"

definition html_server :: env where
  "html_server =
     example_env (Answer 200 ''<html>maintenance</html>'')
       [((GET, NOAA_BASE_URL @ ''ace/mag/ace_mag_1h.json''), [Answer 200 ''[]''])]
       [(''[]'', JArr [])] []"

text \<open>
  A body that is an array nested 100000 deep, on which the parser raises
  \<^verbatim>\<open>RecursionError\<close>; the server that sends it for every request; a server whose
  bodies are not JSON, under a requests older than 2.27, where \<^verbatim>\<open>response.json()\<close>
  raises \<^verbatim>\<open>ValueError\<close>; and a server whose bodies parse, on a host where no snapshot
  can be written.
\<close>

definition deep_body :: string where
  "deep_body = replicate 100000 CHR ''[''"

definition deep_server :: env where
  "deep_server =
     (example_env (Answer 200 deep_body) [] [] [])
       \<lparr>json_loads :=
          (\<lambda>s. if s = deep_body then Inl RecursionError else Inl JSONDecodeError)\<rparr>"

definition html_server_old_requests :: env where
  "html_server_old_requests =
     (example_env (Answer 200 ''<html>maintenance</html>'') [] [] [])
       \<lparr>json_loads := (\<lambda>s. Inl ValueError)\<rparr>"

definition unwritable_cache :: env where
  "unwritable_cache =
     (example_env (Answer 200 ''[]'') [] [(''[]'', JArr [])] [])
       \<lparr>open_error := (\<lambda>file_path. Some OSError)\<rparr>"

definition efield_index :: json where
  "efield_index =
     JObj [(''files'',
            JArr [JObj [(''filename'', JStr ''20240101T000000-15-Efield-x.json''),
                        (''timestamp'', JNum 1704067200)],
                  JObj [(''filename'', JStr ''20240102T000000-15-Efield-x.json''),
                        (''timestamp'', JNum 1704153600)]])]"

definition index_and_alias :: env where
  "index_and_alias = example_env (Answer 200 ''index'') [] [(''index'', efield_index)] []"

definition alias_only :: env where
  "alias_only =
     example_env (Answer 200 [])
       [((GET, NOAA_BASE_URL @ ''lists/rgeojson/US-Canada-1D/index.json''), [Answer 404 []])]
       [] []"

definition listing_only :: env where
  "listing_only =
     example_env (Answer 404 [])
       [((GET, NOAA_BASE_URL @ ''lists/rgeojson/US-Canada-1D/''), [Answer 200 ''page''])]
       []
       [(''page'', [''20240101T000000-15-Efield-x.json'',
                    ''20240102T000000-15-Efield-x.json''])]"

subsection \<open>Example hosts and cache directories\<close>

text \<open>
  A host whose local zone is a fixed offset from UTC; noon of 2025-02-20 in UTC, in
  microseconds; a snapshot file that can be removed.
\<close>

definition zone_host :: "int \<Rightarrow> int \<Rightarrow> host" where
  "zone_host now offset = \<lparr>utcnow = now, utcoffset = (\<lambda>t. offset)\<rparr>"

definition noon :: int where
  "noon = 1740052800000000"

definition minutes :: "int \<Rightarrow> int" where
  "minutes n = n * 60000000"

definition snapshot :: "string \<Rightarrow> int \<Rightarrow> file_entry" where
  "snapshot filename mtime =
     \<lparr>name = filename, st_mtime = mtime, locked = False, dangling = False\<rparr>"

definition one_day_old_file :: filesystem where
  "one_day_old_file =
     [''noaa_data'' \<mapsto>
        Directory
          [snapshot ''primary_xray_flares_20250219130000.json'' (noon - minutes 1380)]]"

definition crowded_cache :: filesystem where
  "crowded_cache =
     [''noaa_data'' \<mapsto>
        Directory
          [snapshot ''primary_xray_flares_20250220115000.json'' (noon - minutes 10),
           snapshot ''primary_xray_flares_20250220114000.json'' (noon - minutes 20),
           snapshot ''primary_xray_flares_20250220113000.json'' (noon - minutes 30),
           \<lparr>name = ''notes.json'', st_mtime = noon - minutes 3000, locked = True,
            dangling = False\<rparr>]]"

definition three_flares :: "file_entry list" where
  "three_flares =
     [snapshot ''primary_xray_flares_20250220113000.json'' (noon - minutes 30),
      snapshot ''primary_xray_flares_20250220115000.json'' (noon - minutes 10),
      snapshot ''primary_xray_flares_20250220114000.json'' (noon - minutes 20)]"

definition stray_files :: "file_entry list" where
  "stray_files =
     [snapshot ''latest.json'' (noon - minutes 3000),
      snapshot ''primary_index.json'' (noon - minutes 5),
      snapshot ''primary_xray_flares_20250220115000.json'' (noon - minutes 10)]"

section \<open>Properties of the retention manager\<close>

subsection \<open>The three loops\<close>

lemma path_join_inj [simp]: "path_join d a = path_join d b \<longleftrightarrow> a = b"
  by (simp add: path_join_def)

lemma cutoff_time_Inr:
  "cutoff_time h a = Inr c \<Longrightarrow> c = utcnow h - timedelta_hours a"
  by (simp add: cutoff_time_def Let_def split: if_splits)

lemma scan_file_Inr_iff:
  "scan_file d h c st f = Inr st' \<longleftrightarrow>
     (if is_json f
      then readable h f \<and>
           st' = ((case category_of (name f) of
                     None \<Rightarrow> fst st
                   | Some cat \<Rightarrow> dict_append (fst st) cat (triple_of d h f)),
                  (if file_time h f < c then snd st @ [path_join d (name f)] else snd st))
      else st' = st)"
  by (cases st)
     (auto simp add: scan_file_def os_stat_def fromtimestamp_def Let_def is_json_def
        readable_def file_time_def category_of_def triple_of_def)

lemma scan_file_Inl_iff:
  "(\<exists>x. scan_file d h c st f = Inl x) \<longleftrightarrow> is_json f \<and> \<not> readable h f"
  by (auto simp add: scan_file_def os_stat_def fromtimestamp_def Let_def is_json_def
        readable_def file_time_def)

lemma scan_files_Cons_Inr:
  "scan_files d h c st (f # xs) = Inr st' \<longleftrightarrow>
     (\<exists>st1. scan_file d h c st f = Inr st1 \<and> scan_files d h c st1 xs = Inr st')"
  by (cases "scan_file d h c st f") simp_all

lemma scan_files_returns:
  "sweepable h xs \<Longrightarrow> \<exists>st'. scan_files d h c st xs = Inr st'"
proof (induction xs arbitrary: st)
  case Nil
  then show ?case by simp
next
  case (Cons f xs)
  from Cons.prems have f: "is_json f \<longrightarrow> readable h f" and xs: "sweepable h xs"
    by (simp_all add: sweepable_def)
  from f obtain st1 where st1: "scan_file d h c st f = Inr st1"
    using scan_file_Inl_iff [of d h c st f] by (cases "scan_file d h c st f") auto
  from Cons.IH [OF xs, of st1] st1 show ?case by simp
qed

lemma scan_files_sweepable:
  "scan_files d h c st xs = Inr st' \<Longrightarrow> sweepable h xs"
proof (induction xs arbitrary: st)
  case Nil
  then show ?case by (simp add: sweepable_def)
next
  case (Cons f xs)
  from Cons.prems obtain st1 where st1: "scan_file d h c st f = Inr st1"
    and rest: "scan_files d h c st1 xs = Inr st'"
    unfolding scan_files_Cons_Inr by blast
  from st1 have "is_json f \<longrightarrow> readable h f"
    using scan_file_Inl_iff [of d h c st f] by auto
  with Cons.IH [OF rest] show ?case by (simp add: sweepable_def)
qed

lemma scan_snd:
  "scan_files d h c st xs = Inr st' \<Longrightarrow> snd st' = snd st @ aged d h c xs"
proof (induction xs arbitrary: st)
  case Nil
  then show ?case by (simp add: aged_def)
next
  case (Cons f xs)
  from Cons.prems obtain st1 where st1: "scan_file d h c st f = Inr st1"
    and rest: "scan_files d h c st1 xs = Inr st'"
    unfolding scan_files_Cons_Inr by blast
  from st1 have "snd st1 = snd st @ aged d h c [f]"
    unfolding scan_file_Inr_iff by (auto simp add: aged_def split: if_splits)
  with Cons.IH [OF rest] show ?case by (simp add: aged_def)
qed

lemma map_of_dict_append:
  "map_of (dict_append dict k v) k' =
     (if k' = k then Some ((case map_of dict k of None \<Rightarrow> [] | Some vs \<Rightarrow> vs) @ [v])
      else map_of dict k')"
  by (induction dict k v rule: dict_append.induct) auto

lemma keys_dict_append:
  "fst ` set (dict_append dict k v) = insert k (fst ` set dict)"
  by (induction dict k v rule: dict_append.induct) auto

lemma distinct_dict_append:
  "distinct (map fst dict) \<Longrightarrow> distinct (map fst (dict_append dict k v))"
  by (induction dict k v rule: dict_append.induct) (auto simp add: keys_dict_append)

lemma scan_fst_distinct:
  "scan_files d h c st xs = Inr st' \<Longrightarrow> distinct (map fst (fst st)) \<Longrightarrow>
   distinct (map fst (fst st'))"
proof (induction xs arbitrary: st)
  case Nil
  then show ?case by simp
next
  case (Cons f xs)
  from Cons.prems(1) obtain st1 where st1: "scan_file d h c st f = Inr st1"
    and rest: "scan_files d h c st1 xs = Inr st'"
    unfolding scan_files_Cons_Inr by blast
  from st1 Cons.prems(2) have "distinct (map fst (fst st1))"
    unfolding scan_file_Inr_iff
    by (auto simp add: distinct_dict_append split: if_splits option.splits)
  with Cons.IH [OF rest] show ?case .
qed

lemma scan_fst:
  "scan_files d h c st xs = Inr st' \<Longrightarrow>
   map_of (fst st') cat =
     (case map_of (fst st) cat of
        None \<Rightarrow> (if members d h cat xs = [] then None else Some (members d h cat xs))
      | Some vs \<Rightarrow> Some (vs @ members d h cat xs))"
proof (induction xs arbitrary: st)
  case Nil
  then show ?case by (simp add: members_def split: option.splits)
next
  case (Cons f xs)
  from Cons.prems obtain st1 where st1: "scan_file d h c st f = Inr st1"
    and rest: "scan_files d h c st1 xs = Inr st'"
    unfolding scan_files_Cons_Inr by blast
  from st1 have "map_of (fst st1) cat =
     (case map_of (fst st) cat of
        None \<Rightarrow> (if members d h cat [f] = [] then None else Some (members d h cat [f]))
      | Some vs \<Rightarrow> Some (vs @ members d h cat [f]))"
    unfolding scan_file_Inr_iff
    by (auto simp add: members_def map_of_dict_append split: if_splits option.splits)
  moreover have "members d h cat (f # xs) = members d h cat [f] @ members d h cat xs"
    by (simp add: members_def)
  ultimately show ?case
    using Cons.IH [OF rest] by (simp split: option.splits if_splits)
qed

lemma set_mark_excess:
  "set (mark_excess del ts) = set del \<union> (fst \<circ> snd) ` set ts"
  by (induction del ts rule: mark_excess.induct) auto

lemma distinct_mark_excess:
  "distinct del \<Longrightarrow> distinct (mark_excess del ts)"
  by (induction del ts rule: mark_excess.induct) auto

lemma prune_category_nonneg:
  "0 \<le> n \<Longrightarrow>
   prune_category n del item = mark_excess del (drop (nat n) (sort_newest_first (snd item)))"
  by (simp add: prune_category_def slice_from_def Let_def sort_newest_first_def)

lemma set_prune_all:
  "0 \<le> n \<Longrightarrow>
   set (foldl (prune_category n) del groups) =
     set del \<union> (\<Union>item \<in> set groups. set (excess n (snd item)))"
  by (induction groups arbitrary: del)
     (auto simp add: prune_category_nonneg set_mark_excess excess_def)

lemma scan_dir_snd: "scan_dir d h c xs = Inr st \<Longrightarrow> snd st = aged d h c xs"
  using scan_snd [of d h c "([], [])" xs st] by (simp add: scan_dir_def)

lemma scan_dir_fst:
  "scan_dir d h c xs = Inr st \<Longrightarrow>
   map_of (fst st) cat =
     (if members d h cat xs = [] then None else Some (members d h cat xs))"
  using scan_fst [of d h c "([], [])" xs st cat] by (simp add: scan_dir_def)

lemma scan_dir_distinct: "scan_dir d h c xs = Inr st \<Longrightarrow> distinct (map fst (fst st))"
  using scan_fst_distinct [of d h c "([], [])" xs st] by (simp add: scan_dir_def)

lemma scan_dir_returns: "sweepable h xs \<Longrightarrow> \<exists>st. scan_dir d h c xs = Inr st"
  unfolding scan_dir_def by (rule scan_files_returns)

lemma scan_dir_sweepable: "scan_dir d h c xs = Inr st \<Longrightarrow> sweepable h xs"
  unfolding scan_dir_def by (rule scan_files_sweepable)

lemma scan_dir_groups:
  assumes "scan_dir d h c xs = Inr st"
  shows "(cat, g) \<in> set (fst st) \<longleftrightarrow> g = members d h cat xs \<and> g \<noteq> []"
proof -
  have "(cat, g) \<in> set (fst st) \<longleftrightarrow> map_of (fst st) cat = Some g"
    by (rule map_of_eq_Some_iff [symmetric]) (rule scan_dir_distinct [OF assms])
  then show ?thesis
    by (auto simp add: scan_dir_fst [OF assms])
qed

lemma member_file:
  "t \<in> set (members d h cat listing) \<longleftrightarrow>
     (\<exists>f \<in> set listing. is_json f \<and> category_of (name f) = Some cat \<and> t = triple_of d h f)"
  by (auto simp add: members_def)

lemma excess_Nil [simp]: "excess n [] = []"
  by (simp add: excess_def sort_newest_first_def)

lemma excess_subset: "set (excess n g) \<subseteq> (fst \<circ> snd) ` set g"
proof -
  have "set (drop (nat n) (sort_newest_first g)) \<subseteq> set g"
    using set_drop_subset [of "nat n" "sort_newest_first g"]
    by (simp add: sort_newest_first_def)
  then show ?thesis by (auto simp add: excess_def)
qed

lemma files_to_delete_Inr_iff:
  "files_to_delete d h a n xs = Inr del \<longleftrightarrow>
     (\<exists>c st. cutoff_time h a = Inr c \<and> scan_dir d h c xs = Inr st \<and>
        del = foldl (prune_category n) (snd st) (fst st))"
  by (auto simp add: files_to_delete_def split: sum.splits)

lemma files_to_delete_returns:
  assumes "cutoff_time h a = Inr c" and "sweepable h xs"
  shows "\<exists>del. files_to_delete d h a n xs = Inr del"
proof -
  from scan_dir_returns [OF assms(2), of d c] obtain st where "scan_dir d h c xs = Inr st" ..
  with assms(1) show ?thesis unfolding files_to_delete_Inr_iff by blast
qed

lemma files_to_delete_scan:
  assumes "cutoff_time h a = Inr c" and "files_to_delete d h a n xs = Inr del"
  shows "\<exists>st. scan_dir d h c xs = Inr st \<and> del = foldl (prune_category n) (snd st) (fst st)"
  using assms unfolding files_to_delete_Inr_iff by auto

lemma set_files_to_delete:
  assumes "0 \<le> n" and "cutoff_time h a = Inr c" and "files_to_delete d h a n xs = Inr del"
  shows "set del =
           set (aged d h c xs) \<union> (\<Union>cat. set (excess n (members d h cat xs)))"
proof -
  from files_to_delete_scan [OF assms(2,3)] obtain st where st: "scan_dir d h c xs = Inr st"
    and del: "del = foldl (prune_category n) (snd st) (fst st)" by blast
  have "(\<Union>item \<in> set (fst st). set (excess n (snd item)))
        = (\<Union>cat. set (excess n (members d h cat xs)))" (is "?L = ?R")
  proof
    show "?L \<subseteq> ?R"
    proof
      fix p assume "p \<in> ?L"
      then obtain cat g where "(cat, g) \<in> set (fst st)" "p \<in> set (excess n g)"
        by auto
      then show "p \<in> ?R" by (auto simp add: scan_dir_groups [OF st])
    qed
    show "?R \<subseteq> ?L"
    proof
      fix p assume "p \<in> ?R"
      then obtain cat where p: "p \<in> set (excess n (members d h cat xs))" by auto
      then have "members d h cat xs \<noteq> []" by auto
      then have "(cat, members d h cat xs) \<in> set (fst st)"
        by (simp add: scan_dir_groups [OF st])
      with p show "p \<in> ?L" by force
    qed
  qed
  then show ?thesis
    using assms(1) by (simp add: del set_prune_all scan_dir_snd [OF st])
qed

lemma age_marks_survive_pruning:
  "set del \<subseteq> set (foldl (prune_category n) del groups)"
proof (induction groups arbitrary: del)
  case Nil
  then show ?case by simp
next
  case (Cons item groups)
  have "set del \<subseteq> set (prune_category n del item)"
    by (auto simp add: prune_category_def Let_def set_mark_excess)
  with Cons [of "prune_category n del item"] show ?case by auto
qed

lemma prune_category_within:
  "set (prune_category n del item) \<subseteq> set del \<union> (fst \<circ> snd) ` set (snd item)"
proof -
  have "set (slice_from (sort_newest_first (snd item)) n) \<subseteq> set (snd item)"
    using set_drop_subset [of _ "sort_newest_first (snd item)"]
    by (auto simp add: slice_from_def sort_newest_first_def)
  then show ?thesis
    by (auto simp add: prune_category_def Let_def set_mark_excess)
qed

lemma prune_all_within:
  "set (foldl (prune_category n) del groups) \<subseteq>
     set del \<union> (\<Union>item \<in> set groups. (fst \<circ> snd) ` set (snd item))"
proof (induction groups arbitrary: del)
  case Nil
  then show ?case by simp
next
  case (Cons item groups)
  from Cons [of "prune_category n del item"] prune_category_within [of n del item]
  show ?case by auto
qed

lemma files_to_delete_within:
  assumes "cutoff_time h a = Inr c" and "files_to_delete d h a n listing = Inr del"
  shows "set del \<subseteq>
     set (aged d h c listing) \<union> (\<Union>cat. (fst \<circ> snd) ` set (members d h cat listing))"
proof
  from files_to_delete_scan [OF assms] obtain st where st: "scan_dir d h c listing = Inr st"
    and del: "del = foldl (prune_category n) (snd st) (fst st)" by blast
  fix p assume "p \<in> set del"
  then have "p \<in> set (aged d h c listing) \<or>
             (\<exists>item \<in> set (fst st). p \<in> (fst \<circ> snd) ` set (snd item))"
    using prune_all_within [of n "snd st" "fst st"]
    by (auto simp add: del scan_dir_snd [OF st])
  then show "p \<in> set (aged d h c listing) \<union>
     (\<Union>cat. (fst \<circ> snd) ` set (members d h cat listing))"
  proof
    assume "p \<in> set (aged d h c listing)"
    then show ?thesis by simp
  next
    assume "\<exists>item \<in> set (fst st). p \<in> (fst \<circ> snd) ` set (snd item)"
    then obtain item where item: "item \<in> set (fst st)"
      "p \<in> (fst \<circ> snd) ` set (snd item)" by blast
    from item(1) have "(fst item, snd item) \<in> set (fst st)"
      by simp
    then have "snd item = members d h (fst item) listing"
      by (simp only: scan_dir_groups [OF st])
    with item(2) have "p \<in> (fst \<circ> snd) ` set (members d h (fst item) listing)"
      by simp
    then show ?thesis by blast
  qed
qed

lemma os_remove_None:
  "os_remove d l p = None \<longleftrightarrow> (\<forall>f \<in> set l. path_join d (name f) = p \<longrightarrow> locked f)"
  by (simp add: os_remove_def)

lemma os_remove_Some:
  "os_remove d l p = Some l' \<longleftrightarrow>
     (\<exists>f \<in> set l. path_join d (name f) = p \<and> \<not> locked f) \<and>
     l' = filter (\<lambda>f. path_join d (name f) \<noteq> p) l"
  by (cases "\<exists>f \<in> set l. path_join d (name f) = p \<and> \<not> locked f")
     (simp_all add: os_remove_def eq_commute)

lemma delete_marked_all_fail:
  "\<forall>f \<in> set l. path_join d (name f) \<in> set del \<longrightarrow> locked f \<Longrightarrow>
   delete_marked d del (l, n, lg) = (l, n, lg @ map Failed_to_delete del)"
proof (induction del arbitrary: lg)
  case Nil
  then show ?case by simp
next
  case (Cons p rest)
  then have "os_remove d l p = None"
    unfolding os_remove_None by simp
  with Cons show ?case by simp
qed

lemma distinct_names_filter:
  "distinct (map name l) \<Longrightarrow> distinct (map name (filter P l))"
  by (simp add: distinct_map_filter)

lemma same_name_same_file:
  assumes "distinct (map name l)" "f \<in> set l" "g \<in> set l" "name f = name g"
  shows "f = g"
proof -
  from assms(1) have "inj_on name (set l)" by (simp add: distinct_map)
  then show ?thesis using assms(4) assms(2) assms(3) by (rule inj_onD)
qed

lemma delete_marked_listing:
  "distinct (map name l) \<Longrightarrow>
   fst (delete_marked d del (l, n, lg)) = filter (kept d del) l"
proof (induction del arbitrary: l n lg)
  case Nil
  then show ?case by (simp add: kept_def)
next
  case (Cons p rest)
  show ?case
  proof (cases "os_remove d l p")
    case None
    then have locked: "\<And>f. f \<in> set l \<Longrightarrow> path_join d (name f) = p \<Longrightarrow> locked f"
      unfolding os_remove_None by blast
    have "filter (kept d (p # rest)) l = filter (kept d rest) l"
    proof (rule filter_cong [OF refl])
      fix f assume "f \<in> set l"
      then show "kept d (p # rest) f = kept d rest f"
        using locked [of f] by (auto simp add: kept_def)
    qed
    with None Cons show ?thesis by simp
  next
    case (Some l')
    then have ex: "\<exists>f \<in> set l. path_join d (name f) = p \<and> \<not> locked f"
      and l': "l' = filter (\<lambda>f. path_join d (name f) \<noteq> p) l"
      unfolding os_remove_Some by blast+
    from ex obtain f0 where f0: "f0 \<in> set l" "path_join d (name f0) = p" "\<not> locked f0"
      by blast
    have unlocked: "\<not> locked f" if "f \<in> set l" "path_join d (name f) = p" for f
    proof -
      from that(2) f0(2) have "path_join d (name f) = path_join d (name f0)" by (rule trans [OF _ sym])
      then have "name f = name f0" by (simp only: path_join_inj)
      with Cons.prems that f0 have "f = f0" by (intro same_name_same_file [of l])
      with f0 show ?thesis by simp
    qed
    have "filter (kept d rest) l' = filter (kept d (p # rest)) l"
      unfolding l' filter_filter
    proof (rule filter_cong [OF refl])
      fix f assume "f \<in> set l"
      then show "(path_join d (name f) \<noteq> p \<and> kept d rest f) = kept d (p # rest) f"
        using unlocked [of f] by (auto simp add: kept_def)
    qed
    moreover have "distinct (map name l')"
      unfolding l' using Cons.prems by (rule distinct_names_filter)
    ultimately show ?thesis
      using Some Cons.IH [of l'] by simp
  qed
qed

lemma cleanup_old_files_Inr:
  assumes "fs d = Some (Directory l)" and "files_to_delete d h a n l = Inr del"
  shows "\<exists>lg. cleanup_old_files fs h d a n =
           Inr (fs(d \<mapsto> Directory (fst (delete_marked d del (l, 0, [])))),
                fst (snd (delete_marked d del (l, 0, []))), lg)"
proof -
  from assms(2) obtain c where "cutoff_time h a = Inr c"
    unfolding files_to_delete_Inr_iff by blast
  with assms show ?thesis
    by (cases "delete_marked d del (l, 0, [])")
       (simp add: cleanup_old_files_def os_listdir_def)
qed

lemma cleanup_old_files_cases:
  assumes "cleanup_old_files fs h d a n = Inr (fs', k, lg)"
  shows "fs d = None \<and> fs' = fs \<and> k = 0 \<or>
         (\<exists>l del. fs d = Some (Directory l) \<and> files_to_delete d h a n l = Inr del \<and>
            fs' = fs(d \<mapsto> Directory (fst (delete_marked d del (l, 0, [])))) \<and>
            k = fst (snd (delete_marked d del (l, 0, []))))"
proof (cases "fs d")
  case None
  with assms show ?thesis by (auto simp add: cleanup_old_files_def)
next
  case (Some nd)
  with assms obtain l del where l: "nd = Directory l"
    and del: "files_to_delete d h a n l = Inr del"
    by (auto simp add: cleanup_old_files_def os_listdir_def
          split: sum.splits node.splits prod.splits)
  from cleanup_old_files_Inr [of fs d l h a n del] Some l del assms
  show ?thesis by auto
qed

lemmas retention_defs =
  cleanup_old_files_def files_to_delete_def scan_dir_def scan_file_def prune_category_def
  sort_newest_first_def slice_from_def os_remove_def path_join_def endswith_def
  fromtimestamp_def timedelta_hours_def cutoff_time_def os_stat_def os_listdir_def
  datetime_min_def datetime_max_def zone_host_def noon_def minutes_def snapshot_def Let_def

subsection \<open>The age rule\<close>

text \<open>
  What the age rule does, in the terms of the code: a JSON file whose \<^verbatim>\<open>file_time\<close> is
  before \<^verbatim>\<open>cutoff_time\<close> is in \<^verbatim>\<open>files_to_delete\<close>, whatever its category, the number of
  files in it and \<^verbatim>\<open>max_files_per_category\<close>; on a host whose local time is UTC that
  is every file modified before the cutoff.
\<close>

lemma age_rule_marks:
  assumes "f \<in> set listing" and "is_json f"
    and "cutoff_time h a = Inr c" and "file_time h f < c"
    and "files_to_delete d h a n listing = Inr del"
  shows "path_join d (name f) \<in> set del"
proof -
  from files_to_delete_scan [OF assms(3,5)] obtain st
    where st: "scan_dir d h c listing = Inr st"
      and del: "del = foldl (prune_category n) (snd st) (fst st)" by blast
  from assms(1,2,4) have "path_join d (name f) \<in> set (aged d h c listing)"
    by (auto simp add: aged_def)
  then show ?thesis
    using age_marks_survive_pruning [of "snd st" n "fst st"]
    by (auto simp add: del scan_dir_snd [OF st])
qed

lemma file_time_utc: "utcoffset h = (\<lambda>t. 0) \<Longrightarrow> file_time h f = st_mtime f"
  by (simp add: file_time_def)

lemma age_law_on_utc_host:
  assumes "utcoffset h = (\<lambda>t. 0)"
    and "f \<in> set listing" and "is_json f"
    and "cutoff_time h a = Inr c" and "st_mtime f < c"
    and "sweepable h listing"
  shows "\<exists>del. files_to_delete d h a n listing = Inr del \<and> path_join d (name f) \<in> set del"
proof -
  from files_to_delete_returns [OF assms(4,6), of d n] obtain del
    where del: "files_to_delete d h a n listing = Inr del" ..
  from assms(1,5) have "file_time h f < c" by (simp add: file_time_utc)
  from age_rule_marks [OF assms(2,3,4) this del] del show ?thesis by blast
qed

subsection \<open>The age check on a host whose local time is not UTC\<close>

text \<open>
  Claim C4 at a failing input. \<^verbatim>\<open>cutoff_time\<close> is computed from \<^verbatim>\<open>datetime.utcnow()\<close>,
  \<^verbatim>\<open>file_time\<close> from \<^verbatim>\<open>datetime.fromtimestamp\<close>, which is local time. On a host one hour
  east of UTC, a file modified 24 hours and 30 minutes ago is older than 24 hours, and
  is not marked for deletion.
\<close>

theorem age_law_east_of_utc:
  "st_mtime (snapshot ''primary_xray_flares_20250219113000.json'' (noon - minutes 1470))
     < utcnow (zone_host noon (minutes 60)) - timedelta_hours 24 \<and>
   files_to_delete ''noaa_data'' (zone_host noon (minutes 60)) 24 10
     [snapshot ''primary_xray_flares_20250219113000.json'' (noon - minutes 1470)] = Inr []"
  by (simp add: retention_defs)

text \<open>
  The same comparison west of UTC errs the other way: two files modified less than
  24 hours ago are both marked by the age check on a host one hour west of UTC.
\<close>

lemma age_check_west_of_utc:
  "utcnow (zone_host noon (- minutes 60)) - timedelta_hours 24
     \<le> st_mtime (snapshot ''primary_xray_flares_20250219123000.json'' (noon - minutes 1410)) \<and>
   utcnow (zone_host noon (- minutes 60)) - timedelta_hours 24
     \<le> st_mtime (snapshot ''primary_xray_flares_20250219121500.json'' (noon - minutes 1425)) \<and>
   cleanup_old_files
     [''noaa_data'' \<mapsto>
        Directory
          [snapshot ''primary_xray_flares_20250219123000.json'' (noon - minutes 1410),
           snapshot ''primary_xray_flares_20250219121500.json'' (noon - minutes 1425)]]
     (zone_host noon (- minutes 60)) ''noaa_data'' 24 1 =
   Inr ([''noaa_data'' \<mapsto> Directory []], 2, [Cleaned_up 2])"
  by (simp add: retention_defs)

subsection \<open>What can stop the sweep\<close>

text \<open>
  Every exception that leaves \<^verbatim>\<open>cleanup_old_files\<close> is raised before the deletion loop:
  by the cutoff (a \<^verbatim>\<open>max_age_hours\<close> out of range), by \<^verbatim>\<open>os.listdir\<close>, or by
  \<^verbatim>\<open>os.stat\<close> and \<^verbatim>\<open>datetime.fromtimestamp\<close> on an entry with the extension. The call
  returns exactly when none of them raises.
\<close>

lemma cleanup_old_files_returns_iff:
  "(\<exists>r. cleanup_old_files fs h d a n = Inr r) \<longleftrightarrow>
     (fs d = None \<or>
      (\<exists>l c. fs d = Some (Directory l) \<and> cutoff_time h a = Inr c \<and> sweepable h l))"
proof (cases "fs d")
  case None
  then show ?thesis by (simp add: cleanup_old_files_def)
next
  case (Some nd)
  show ?thesis
  proof
    assume "\<exists>r. cleanup_old_files fs h d a n = Inr r"
    then obtain fs' k lg where "cleanup_old_files fs h d a n = Inr (fs', k, lg)" by auto
    from cleanup_old_files_cases [OF this] Some obtain l del
      where l: "fs d = Some (Directory l)" and del: "files_to_delete d h a n l = Inr del"
      by auto
    from del obtain c st where "cutoff_time h a = Inr c" "scan_dir d h c l = Inr st"
      unfolding files_to_delete_Inr_iff by blast
    with l scan_dir_sweepable [of d h c l st] show
      "fs d = None \<or>
       (\<exists>l c. fs d = Some (Directory l) \<and> cutoff_time h a = Inr c \<and> sweepable h l)"
      by blast
  next
    assume "fs d = None \<or>
      (\<exists>l c. fs d = Some (Directory l) \<and> cutoff_time h a = Inr c \<and> sweepable h l)"
    with Some obtain l c where l: "fs d = Some (Directory l)"
      and c: "cutoff_time h a = Inr c" and sw: "sweepable h l" by auto
    from files_to_delete_returns [OF c sw, of d n] obtain del
      where "files_to_delete d h a n l = Inr del" ..
    from cleanup_old_files_Inr [of fs d l h a n del] l this
    show "\<exists>r. cleanup_old_files fs h d a n = Inr r"
      by blast
  qed
qed

lemma overflowing_age:
  "cleanup_old_files one_day_old_file (zone_host noon 0) ''noaa_data'' 24000000000 5 =
     Inl OverflowError"
  by (simp add: retention_defs one_day_old_file_def)

subsection \<open>Files without a category\<close>

text \<open>
  Claim C9, as amended. Take a directory of distinct names in which \<^verbatim>\<open>os.stat\<close> and
  \<^verbatim>\<open>datetime.fromtimestamp\<close> raise for no entry with the extension, a
  \<^verbatim>\<open>max_age_hours\<close> for which the cutoff exists, and a JSON file whose name has fewer
  than three underscore-delimited tokens. The call returns. No list of
  \<^verbatim>\<open>files_by_category\<close> holds the file, and it is in \<^verbatim>\<open>files_to_delete\<close> at the end of
  the second loop only if the first loop put it there, whatever
  \<^verbatim>\<open>max_files_per_category\<close> is: the count rule never marks it. On a host whose local
  time is UTC, the file is marked exactly when its modification time is before
  \<^verbatim>\<open>utcnow - max_age_hours\<close>, and it is gone after the call exactly when it was marked
  and \<^verbatim>\<open>os.remove\<close> did not raise \<^verbatim>\<open>OSError\<close> for it.
\<close>

theorem uncategorized_file_only_age_checked:
  assumes "distinct (map name listing)"
    and "f \<in> set listing"
    and "endswith (name f) ''.json''"
    and "length (str_split CHR ''_'' (name f)) < 3"
    and "fs data_dir = Some (Directory listing)"
    and "cutoff_time h a = Inr c"
    and "sweepable h listing"
  shows "\<exists>st marked fs' deleted_count lg listing'.
           scan_dir data_dir h c listing = Inr st \<and>
           files_to_delete data_dir h a n listing = Inr marked \<and>
           cleanup_old_files fs h data_dir a n = Inr (fs', deleted_count, lg) \<and>
           fs' data_dir = Some (Directory listing') \<and>
           (\<forall>item \<in> set (fst st). \<forall>t \<in> set (snd item). fst t \<noteq> name f) \<and>
           (path_join data_dir (name f) \<in> set marked \<longleftrightarrow>
              path_join data_dir (name f) \<in> set (snd st)) \<and>
           (utcoffset h = (\<lambda>t. 0) \<longrightarrow>
              (path_join data_dir (name f) \<in> set marked \<longleftrightarrow>
                 st_mtime f < utcnow h - timedelta_hours a) \<and>
              (f \<in> set listing' \<longleftrightarrow>
                 \<not> (st_mtime f < utcnow h - timedelta_hours a \<and> \<not> locked f)))"
proof -
  let ?p = "path_join data_dir (name f)"
  from scan_dir_returns [OF assms(7), of data_dir c] obtain st
    where st: "scan_dir data_dir h c listing = Inr st" ..
  define marked where "marked = foldl (prune_category n) (snd st) (fst st)"
  have del: "files_to_delete data_dir h a n listing = Inr marked"
    unfolding files_to_delete_Inr_iff marked_def using assms(6) st by blast
  define listing' where "listing' = filter (kept data_dir marked) listing"
  have l': "fst (delete_marked data_dir marked (listing, 0, [])) = listing'"
    unfolding listing'_def by (rule delete_marked_listing [OF assms(1)])
  from cleanup_old_files_Inr [of fs data_dir listing h a n marked] assms(5) del l'
  obtain lg where run: "cleanup_old_files fs h data_dir a n =
      Inr (fs(data_dir \<mapsto> Directory listing'),
           fst (snd (delete_marked data_dir marked (listing, 0, []))), lg)"
    by auto
  have c: "c = utcnow h - timedelta_hours a"
    using assms(6) by (rule cutoff_time_Inr)
  have json: "is_json f" using assms(3) by (simp add: is_json_def)
  have nocat: "category_of (name f) = None"
    using assms(4) by (simp add: category_of_def Let_def)
  have no_member: "?p \<notin> (fst \<circ> snd) ` set (members data_dir h cat listing)" for cat
    using nocat by (auto simp add: member_file triple_of_def)
  have aged_iff: "?p \<in> set (aged data_dir h c listing) \<longleftrightarrow> file_time h f < c"
  proof
    assume "?p \<in> set (aged data_dir h c listing)"
    then obtain f' where f': "f' \<in> set listing" "name f' = name f" "file_time h f' < c"
      by (auto simp add: aged_def)
    from same_name_same_file [OF assms(1) f'(1) assms(2) f'(2)] f'(3)
    show "file_time h f < c" by simp
  next
    assume "file_time h f < c"
    with assms(2) json show "?p \<in> set (aged data_dir h c listing)"
      by (auto simp add: aged_def)
  qed
  have first_loop: "?p \<in> set marked \<longleftrightarrow> ?p \<in> set (snd st)"
  proof
    assume "?p \<in> set marked"
    with files_to_delete_within [OF assms(6) del] no_member
    have "?p \<in> set (aged data_dir h c listing)" by blast
    then show "?p \<in> set (snd st)" by (simp add: scan_dir_snd [OF st])
  next
    assume "?p \<in> set (snd st)"
    then show "?p \<in> set marked"
      unfolding marked_def using age_marks_survive_pruning [of "snd st" n "fst st"] by blast
  qed
  have marked_iff: "?p \<in> set marked \<longleftrightarrow> file_time h f < c"
    using first_loop aged_iff by (simp add: scan_dir_snd [OF st])
  have groups: "\<forall>item \<in> set (fst st). \<forall>t \<in> set (snd item). fst t \<noteq> name f"
  proof (intro ballI)
    fix item t
    assume "item \<in> set (fst st)" and t: "t \<in> set (snd item)"
    then have "(fst item, snd item) \<in> set (fst st)" by simp
    then have "snd item = members data_dir h (fst item) listing"
      by (simp only: scan_dir_groups [OF st])
    with t have "t \<in> set (members data_dir h (fst item) listing)" by simp
    then obtain f' where "category_of (name f') = Some (fst item)" "t = triple_of data_dir h f'"
      unfolding member_file by blast
    with nocat show "fst t \<noteq> name f" by (auto simp add: triple_of_def)
  qed
  have stays: "f \<in> set listing' \<longleftrightarrow> \<not> (file_time h f < c \<and> \<not> locked f)"
    unfolding listing'_def using assms(2) marked_iff by (auto simp add: kept_def)
  have utc: "utcoffset h = (\<lambda>t. 0) \<longrightarrow>
              (?p \<in> set marked \<longleftrightarrow> st_mtime f < utcnow h - timedelta_hours a) \<and>
              (f \<in> set listing' \<longleftrightarrow>
                 \<not> (st_mtime f < utcnow h - timedelta_hours a \<and> \<not> locked f))"
    using marked_iff stays by (simp add: file_time_utc c)
  have dir: "(fs(data_dir \<mapsto> Directory listing')) data_dir = Some (Directory listing')"
    by simp
  from st del run dir groups first_loop utc show ?thesis by blast
qed

theorem uncategorized_file_witness:
  "files_to_delete ''noaa_data'' (zone_host noon 0) 24 0 stray_files =
     Inr [''noaa_data/latest.json'', ''noaa_data/primary_xray_flares_20250220115000.json''] \<and>
   cleanup_old_files [''noaa_data'' \<mapsto> Directory stray_files] (zone_host noon 0)
       ''noaa_data'' 24 0 =
     Inr ([''noaa_data'' \<mapsto> Directory [snapshot ''primary_index.json'' (noon - minutes 5)]],
          2, [Cleaned_up 2])"
proof -
  have h1: "distinct (map name stray_files)"
    by (simp add: stray_files_def snapshot_def)
  have h2: "snapshot ''latest.json'' (noon - minutes 3000) \<in> set stray_files"
    by (simp add: stray_files_def)
  have h3: "endswith (name (snapshot ''latest.json'' (noon - minutes 3000))) ''.json''"
    by (simp add: snapshot_def endswith_def)
  have h4: "length (str_split CHR ''_'' (name (snapshot ''latest.json'' (noon - minutes 3000)))) < 3"
    by (simp add: snapshot_def)
  have h5: "[''noaa_data'' \<mapsto> Directory stray_files] ''noaa_data'' =
              Some (Directory stray_files)" by simp
  have h6: "cutoff_time (zone_host noon 0) 24 = Inr (noon - timedelta_hours 24)"
    by (simp add: retention_defs)
  have h7: "sweepable (zone_host noon 0) stray_files"
    by (simp add: sweepable_def readable_def file_time_def stray_files_def retention_defs)
  note t = uncategorized_file_only_age_checked
    [of stray_files "snapshot ''latest.json'' (noon - minutes 3000)"
        "[''noaa_data'' \<mapsto> Directory stray_files]" "''noaa_data''" "zone_host noon 0" 24
        "noon - timedelta_hours 24" 0,
     OF h1 h2 h3 h4 h5 h6 h7]
  have "files_to_delete ''noaa_data'' (zone_host noon 0) 24 0 stray_files =
     Inr [''noaa_data/latest.json'', ''noaa_data/primary_xray_flares_20250220115000.json'']"
    by (simp add: retention_defs stray_files_def)
  moreover have "cleanup_old_files [''noaa_data'' \<mapsto> Directory stray_files] (zone_host noon 0)
       ''noaa_data'' 24 0 =
     Inr ([''noaa_data'' \<mapsto> Directory [snapshot ''primary_index.json'' (noon - minutes 5)]],
          2, [Cleaned_up 2])"
    by (simp add: retention_defs stray_files_def)
  ultimately show ?thesis using t by simp
qed

text \<open>
  Claim C9, as stated, fails on a host whose local time is UTC in two ways.
  \<^verbatim>\<open>latest.json\<close> is older than the cutoff and \<^verbatim>\<open>os.remove\<close> raises \<^verbatim>\<open>OSError\<close> for it:
  the failure is logged and the file stays. And \<^verbatim>\<open>latest.json\<close> is older than the
  cutoff and can be removed, but the directory also holds a dangling link
  \<^verbatim>\<open>broken.json\<close>: \<^verbatim>\<open>os.stat\<close> raises on the link, the call ends there, and nothing is
  deleted.
\<close>

theorem uncategorized_file_counterexample:
  "length (str_split CHR ''_'' ''latest.json'') < 3 \<and>
   noon - minutes 3000 < utcnow (zone_host noon 0) - timedelta_hours 24 \<and>
   cleanup_old_files
     [''noaa_data'' \<mapsto>
        Directory
          [\<lparr>name = ''latest.json'', st_mtime = noon - minutes 3000, locked = True,
            dangling = False\<rparr>]]
     (zone_host noon 0) ''noaa_data'' 24 10 =
   Inr ([''noaa_data'' \<mapsto>
           Directory
             [\<lparr>name = ''latest.json'', st_mtime = noon - minutes 3000, locked = True,
               dangling = False\<rparr>]],
        0, [Failed_to_delete ''noaa_data/latest.json'']) \<and>
   cleanup_old_files
     [''noaa_data'' \<mapsto>
        Directory
          [snapshot ''latest.json'' (noon - minutes 3000),
           \<lparr>name = ''broken.json'', st_mtime = noon - minutes 5, locked = False,
            dangling = True\<rparr>]]
     (zone_host noon 0) ''noaa_data'' 24 10 =
   Inl OSError"
  by (simp add: retention_defs)

subsection \<open>The count rule\<close>

text \<open>
  The list that the first loop builds for a category holds one triple for each file
  of the category, in directory order; sorting the triples newest first sorts the
  files by \<^verbatim>\<open>file_time\<close>, which on a host whose local time is UTC is the modification
  time.
\<close>

lemma members_category_files:
  "members d h cat listing = map (triple_of d h) (category_files cat listing)"
  by (simp add: members_def category_files_def)

lemma insort_key_map:
  "insort_key k (g x) (map g xs) = map g (insort_key (\<lambda>a. k (g a)) x xs)"
  by (induction xs) simp_all

lemma sort_key_map: "sort_key k (map g xs) = map g (sort_key (\<lambda>a. k (g a)) xs)"
  by (induction xs) (simp_all add: insort_key_map)

lemma sort_newest_first_members:
  "utcoffset h = (\<lambda>t. 0) \<Longrightarrow>
   sort_newest_first (members d h cat listing) =
     map (triple_of d h) (most_recent_first (category_files cat listing))"
  by (simp add: sort_newest_first_def members_category_files sort_key_map
        triple_of_def most_recent_first_def file_time_utc)

lemma excess_members:
  "utcoffset h = (\<lambda>t. 0) \<Longrightarrow>
   excess n (members d h cat listing) =
     map (\<lambda>f. path_join d (name f))
       (drop (nat n) (most_recent_first (category_files cat listing)))"
  by (simp add: excess_def sort_newest_first_members drop_map comp_def triple_of_def)

lemma category_files_subset: "set (category_files cat listing) \<subseteq> set listing"
  by (auto simp add: category_files_def)

lemma most_recent_first_set [simp]: "set (most_recent_first g) = set g"
  by (simp add: most_recent_first_def)

lemma most_recent_first_order:
  assumes "s \<in> set (take k (most_recent_first g))"
    and "t \<in> set (drop k (most_recent_first g))"
  shows "st_mtime t \<le> st_mtime s"
proof -
  have "sorted (map (\<lambda>f. - st_mtime f) (most_recent_first g))"
    by (simp add: most_recent_first_def)
  then have "sorted (map (\<lambda>f. - st_mtime f) (take k (most_recent_first g)) @
                     map (\<lambda>f. - st_mtime f) (drop k (most_recent_first g)))"
    by (simp only: map_append [symmetric] append_take_drop_id)
  with assms have "- st_mtime s \<le> - st_mtime t"
    by (auto simp add: sorted_append)
  then show ?thesis by simp
qed

lemma marked_in_category:
  assumes utc: "utcoffset h = (\<lambda>t. 0)"
    and dist: "distinct (map name listing)" and n: "0 \<le> n"
    and c: "cutoff_time h a = Inr c"
    and del: "files_to_delete d h a n listing = Inr marked"
    and f: "f \<in> set (category_files cat listing)"
    and young: "c \<le> st_mtime f"
  shows "path_join d (name f) \<in> set marked \<longleftrightarrow>
           f \<in> set (drop (nat n) (most_recent_first (category_files cat listing)))"
proof
  from f have fl: "f \<in> set listing" and fj: "is_json f"
    and fc: "category_of (name f) = Some cat"
    by (auto simp add: category_files_def)
  assume "path_join d (name f) \<in> set marked"
  then consider
      (old) "path_join d (name f) \<in> set (aged d h c listing)"
    | (many) cat' where "path_join d (name f) \<in> set (excess n (members d h cat' listing))"
    unfolding set_files_to_delete [OF n c del] by blast
  then show "f \<in> set (drop (nat n) (most_recent_first (category_files cat listing)))"
  proof cases
    case old
    then obtain f' where f': "f' \<in> set listing" "name f' = name f" "file_time h f' < c"
      by (auto simp add: aged_def)
    from same_name_same_file [OF dist f'(1) fl f'(2)] f'(3) young utc
    show ?thesis by (simp add: file_time_utc)
  next
    case many
    then obtain f' where f': "f' \<in> set (drop (nat n) (most_recent_first (category_files cat' listing)))"
      "name f' = name f"
      unfolding excess_members [OF utc] by auto
    from f'(1) have "f' \<in> set (most_recent_first (category_files cat' listing))"
      by (rule in_set_dropD)
    then have m: "f' \<in> set listing" "category_of (name f') = Some cat'"
      by (auto simp add: category_files_def)
    from same_name_same_file [OF dist m(1) fl f'(2)] have same: "f' = f" .
    with m(2) fc have "cat' = cat" by simp
    with f'(1) same show ?thesis by simp
  qed
next
  assume "f \<in> set (drop (nat n) (most_recent_first (category_files cat listing)))"
  then have "path_join d (name f) \<in> set (excess n (members d h cat listing))"
    unfolding excess_members [OF utc] by auto
  then show "path_join d (name f) \<in> set marked"
    unfolding set_files_to_delete [OF n c del] by blast
qed

lemma category_files_filter:
  "category_files cat (filter P listing) = filter P (category_files cat listing)"
  by (auto simp add: category_files_def intro: filter_cong)

text \<open>
  Claim C5, as amended. On a host whose local time is UTC, take a directory of
  distinct names in which \<^verbatim>\<open>os.stat\<close> and \<^verbatim>\<open>datetime.fromtimestamp\<close> raise for no entry
  with the extension, a \<^verbatim>\<open>max_age_hours\<close> for which the cutoff exists, and a category
  with more files than a non-negative \<^verbatim>\<open>max_files_per_category\<close> \<^verbatim>\<open>n\<close>, none of them
  modified before \<^verbatim>\<open>utcnow - max_age_hours\<close>. The call returns. The files of the
  category in \<^verbatim>\<open>files_to_delete\<close> are those after position \<^verbatim>\<open>n\<close> when the category is
  ordered from the most recently modified, as many as the category has files beyond
  \<^verbatim>\<open>n\<close>; the files not marked are the first \<^verbatim>\<open>n\<close>, each modified no earlier than
  every marked one; and after the call the category holds the files that were not
  marked and the marked files for which \<^verbatim>\<open>os.remove\<close> raised \<^verbatim>\<open>OSError\<close>.
\<close>

theorem count_rule_on_a_category:
  assumes "utcoffset h = (\<lambda>t. 0)"
    and "distinct (map name listing)"
    and "0 \<le> n"
    and "fs data_dir = Some (Directory listing)"
    and "cutoff_time h a = Inr c"
    and "sweepable h listing"
    and "n < int (length (category_files cat listing))"
    and "\<forall>f \<in> set (category_files cat listing). utcnow h - timedelta_hours a \<le> st_mtime f"
  shows "\<exists>marked fs' deleted_count lg listing'.
           files_to_delete data_dir h a n listing = Inr marked \<and>
           cleanup_old_files fs h data_dir a n = Inr (fs', deleted_count, lg) \<and>
           fs' data_dir = Some (Directory listing') \<and>
           {f \<in> set (category_files cat listing). path_join data_dir (name f) \<in> set marked} =
             set (drop (nat n) (most_recent_first (category_files cat listing))) \<and>
           card (set (drop (nat n) (most_recent_first (category_files cat listing)))) =
             length (category_files cat listing) - nat n \<and>
           {f \<in> set (category_files cat listing). path_join data_dir (name f) \<notin> set marked} =
             set (take (nat n) (most_recent_first (category_files cat listing))) \<and>
           card (set (take (nat n) (most_recent_first (category_files cat listing)))) = nat n \<and>
           (\<forall>s \<in> set (take (nat n) (most_recent_first (category_files cat listing))).
            \<forall>t \<in> set (drop (nat n) (most_recent_first (category_files cat listing))).
              st_mtime t \<le> st_mtime s) \<and>
           set (category_files cat listing') =
             set (take (nat n) (most_recent_first (category_files cat listing))) \<union>
             {f \<in> set (drop (nat n) (most_recent_first (category_files cat listing))).
                locked f}"
proof -
  let ?G = "category_files cat listing"
  let ?S = "most_recent_first ?G"
  let ?p = "\<lambda>f. path_join data_dir (name f)"
  from files_to_delete_returns [OF assms(5,6), of data_dir n] obtain marked
    where del: "files_to_delete data_dir h a n listing = Inr marked" ..
  define listing' where "listing' = filter (kept data_dir marked) listing"
  have l': "fst (delete_marked data_dir marked (listing, 0, [])) = listing'"
    unfolding listing'_def by (rule delete_marked_listing [OF assms(2)])
  from cleanup_old_files_Inr [of fs data_dir listing h a n marked] assms(4) del l'
  obtain lg where run: "cleanup_old_files fs h data_dir a n =
      Inr (fs(data_dir \<mapsto> Directory listing'),
           fst (snd (delete_marked data_dir marked (listing, 0, []))), lg)"
    by auto
  have dir: "(fs(data_dir \<mapsto> Directory listing')) data_dir = Some (Directory listing')"
    by simp
  have c: "c = utcnow h - timedelta_hours a"
    using assms(5) by (rule cutoff_time_Inr)
  have dl: "distinct listing"
    using assms(2) by (rule distinct_map [THEN iffD1, THEN conjunct1])
  then have dG: "distinct ?G" by (simp add: category_files_def)
  then have dS: "distinct ?S" by (simp add: most_recent_first_def)
  have lenS: "length ?S = length ?G" by (simp add: most_recent_first_def)
  have marks: "?p f \<in> set marked \<longleftrightarrow> f \<in> set (drop (nat n) ?S)" if "f \<in> set ?G" for f
    using marked_in_category [OF assms(1,2,3,5) del that] assms(8) that c by simp
  have split: "set ?G = set (take (nat n) ?S) \<union> set (drop (nat n) ?S)"
    using set_append [of "take (nat n) ?S" "drop (nat n) ?S"] by simp
  have disj: "set (take (nat n) ?S) \<inter> set (drop (nat n) ?S) = {}"
    using dS distinct_append [of "take (nat n) ?S" "drop (nat n) ?S"] by simp
  have one: "{f \<in> set ?G. ?p f \<in> set marked} = set (drop (nat n) ?S)"
    using marks split by blast
  have two: "card (set (drop (nat n) ?S)) = length ?G - nat n"
    using dS lenS by (simp add: distinct_card)
  have three: "{f \<in> set ?G. ?p f \<notin> set marked} = set (take (nat n) ?S)"
    using marks split disj by blast
  have four: "card (set (take (nat n) ?S)) = nat n"
    using dS lenS assms(3,7) by (simp add: distinct_card)
  have five: "\<forall>s \<in> set (take (nat n) ?S). \<forall>t \<in> set (drop (nat n) ?S).
                st_mtime t \<le> st_mtime s"
    using most_recent_first_order by blast
  have "set (category_files cat listing') = {f \<in> set ?G. kept data_dir marked f}"
    unfolding listing'_def category_files_filter by auto
  also have "\<dots> = set (take (nat n) ?S) \<union> {f \<in> set (drop (nat n) ?S). locked f}"
    using marks split disj by (auto simp add: kept_def)
  finally have six: "set (category_files cat listing') =
      set (take (nat n) ?S) \<union> {f \<in> set (drop (nat n) ?S). locked f}" .
  from del run dir one two three four five six show ?thesis by blast
qed

theorem count_rule_witness:
  "files_to_delete ''noaa_data'' (zone_host noon 0) 24 2 three_flares =
     Inr [''noaa_data/primary_xray_flares_20250220113000.json''] \<and>
   cleanup_old_files [''noaa_data'' \<mapsto> Directory three_flares] (zone_host noon 0)
       ''noaa_data'' 24 2 =
     Inr ([''noaa_data'' \<mapsto>
             Directory
               [snapshot ''primary_xray_flares_20250220115000.json'' (noon - minutes 10),
                snapshot ''primary_xray_flares_20250220114000.json'' (noon - minutes 20)]],
          1, [Cleaned_up 1]) \<and>
   most_recent_first (category_files ''primary_xray_flares'' three_flares) =
     [snapshot ''primary_xray_flares_20250220115000.json'' (noon - minutes 10),
      snapshot ''primary_xray_flares_20250220114000.json'' (noon - minutes 20),
      snapshot ''primary_xray_flares_20250220113000.json'' (noon - minutes 30)]"
proof -
  have group: "category_files ''primary_xray_flares'' three_flares = three_flares"
    by (simp add: category_files_def is_json_def category_of_def three_flares_def
          snapshot_def endswith_def)
  have h1: "utcoffset (zone_host noon 0) = (\<lambda>t. 0)" by (simp add: zone_host_def)
  have h2: "distinct (map name three_flares)"
    by (simp add: three_flares_def snapshot_def)
  have h3: "(0::int) \<le> 2" by simp
  have h4: "[''noaa_data'' \<mapsto> Directory three_flares] ''noaa_data'' =
              Some (Directory three_flares)" by simp
  have h5: "cutoff_time (zone_host noon 0) 24 = Inr (noon - timedelta_hours 24)"
    by (simp add: retention_defs)
  have h6: "sweepable (zone_host noon 0) three_flares"
    by (simp add: sweepable_def readable_def file_time_def three_flares_def retention_defs)
  have h7: "2 < int (length (category_files ''primary_xray_flares'' three_flares))"
    unfolding group by (simp add: three_flares_def)
  have h8: "\<forall>f \<in> set (category_files ''primary_xray_flares'' three_flares).
              utcnow (zone_host noon 0) - timedelta_hours 24 \<le> st_mtime f"
    unfolding group by (simp add: three_flares_def retention_defs)
  note t = count_rule_on_a_category
    [of "zone_host noon 0" three_flares 2 "[''noaa_data'' \<mapsto> Directory three_flares]"
        "''noaa_data''" 24 "noon - timedelta_hours 24" "''primary_xray_flares''",
     OF h1 h2 h3 h4 h5 h6 h7 h8]
  have "files_to_delete ''noaa_data'' (zone_host noon 0) 24 2 three_flares =
     Inr [''noaa_data/primary_xray_flares_20250220113000.json'']"
    by (simp add: retention_defs three_flares_def)
  moreover have "cleanup_old_files [''noaa_data'' \<mapsto> Directory three_flares]
       (zone_host noon 0) ''noaa_data'' 24 2 =
     Inr ([''noaa_data'' \<mapsto>
             Directory
               [snapshot ''primary_xray_flares_20250220115000.json'' (noon - minutes 10),
                snapshot ''primary_xray_flares_20250220114000.json'' (noon - minutes 20)]],
          1, [Cleaned_up 1])"
    by (simp add: retention_defs three_flares_def)
  moreover have "most_recent_first (category_files ''primary_xray_flares'' three_flares) =
     [snapshot ''primary_xray_flares_20250220115000.json'' (noon - minutes 10),
      snapshot ''primary_xray_flares_20250220114000.json'' (noon - minutes 20),
      snapshot ''primary_xray_flares_20250220113000.json'' (noon - minutes 30)]"
    unfolding group
    by (simp add: most_recent_first_def three_flares_def snapshot_def noon_def minutes_def)
  ultimately show ?thesis using t by simp
qed

text \<open>
  Claim C5, as stated, fails in three ways, each on a host whose local time is UTC and
  with every file of the category within the window. A category of two files with
  \<^verbatim>\<open>max_files_per_category = 1\<close>: \<^verbatim>\<open>os.remove\<close> raises \<^verbatim>\<open>OSError\<close> for the older file, so
  no file is deleted where the claim has one deleted. A category of three files with
  \<^verbatim>\<open>max_files_per_category = -1\<close>: the slice \<^verbatim>\<open>files[-1:]\<close> is the oldest file alone, so
  one file is deleted where the claim has four. And a category of two files with
  \<^verbatim>\<open>max_files_per_category = 1\<close> beside a dangling link \<^verbatim>\<open>broken.json\<close>: \<^verbatim>\<open>os.stat\<close>
  raises, and no file is deleted.
\<close>

theorem count_rule_counterexample:
  "utcnow (zone_host noon 0) - timedelta_hours 24 \<le> noon - minutes 10 \<and>
   utcnow (zone_host noon 0) - timedelta_hours 24 \<le> noon - minutes 20 \<and>
   utcnow (zone_host noon 0) - timedelta_hours 24 \<le> noon - minutes 30 \<and>
   cleanup_old_files
     [''noaa_data'' \<mapsto>
        Directory
          [snapshot ''primary_xray_flares_20250220115000.json'' (noon - minutes 10),
           \<lparr>name = ''primary_xray_flares_20250220114000.json'',
            st_mtime = noon - minutes 20, locked = True, dangling = False\<rparr>]]
     (zone_host noon 0) ''noaa_data'' 24 1 =
   Inr ([''noaa_data'' \<mapsto>
           Directory
             [snapshot ''primary_xray_flares_20250220115000.json'' (noon - minutes 10),
              \<lparr>name = ''primary_xray_flares_20250220114000.json'',
               st_mtime = noon - minutes 20, locked = True, dangling = False\<rparr>]],
        0, [Failed_to_delete ''noaa_data/primary_xray_flares_20250220114000.json'']) \<and>
   cleanup_old_files [''noaa_data'' \<mapsto> Directory three_flares] (zone_host noon 0)
     ''noaa_data'' 24 (- 1) =
   Inr ([''noaa_data'' \<mapsto>
           Directory
             [snapshot ''primary_xray_flares_20250220115000.json'' (noon - minutes 10),
              snapshot ''primary_xray_flares_20250220114000.json'' (noon - minutes 20)]],
        1, [Cleaned_up 1]) \<and>
   cleanup_old_files
     [''noaa_data'' \<mapsto>
        Directory
          [snapshot ''primary_xray_flares_20250220115000.json'' (noon - minutes 10),
           snapshot ''primary_xray_flares_20250220114000.json'' (noon - minutes 20),
           \<lparr>name = ''broken.json'', st_mtime = noon - minutes 5, locked = False,
            dangling = True\<rparr>]]
     (zone_host noon 0) ''noaa_data'' 24 1 =
   Inl OSError"
  by (simp add: retention_defs three_flares_def)

subsection \<open>Running the cleanup twice\<close>

lemma set_drop_filter:
  "set (drop n (filter Q xs)) \<subseteq> set (drop n xs)"
proof (induction xs arbitrary: n)
  case Nil
  then show ?case by simp
next
  case (Cons x xs)
  show ?case
  proof (cases n)
    case 0
    then show ?thesis by auto
  next
    case (Suc m)
    have "set (drop (Suc m) (filter Q xs)) \<subseteq> set (drop m (filter Q xs))"
      by (rule set_drop_subset_set_drop) simp
    with Cons.IH [of m] Suc show ?thesis by auto
  qed
qed

lemma members_filter:
  assumes "distinct (map name xs)"
  shows "members d h cat (filter P xs) =
           filter (\<lambda>t. \<exists>f \<in> set xs. P f \<and> name f = fst t) (members d h cat xs)"
proof -
  have "\<And>f. f \<in> set xs \<Longrightarrow> (\<exists>g \<in> set xs. P g \<and> name g = name f) = P f"
    using assms by (auto simp add: distinct_map dest: inj_onD)
  then show ?thesis
    unfolding members_def filter_map filter_filter
    by (intro arg_cong [where f = "map (triple_of d h)"] filter_cong)
       (auto simp add: triple_of_def)
qed

lemma excess_filter:
  "set (excess n (filter Q g)) \<subseteq> set (excess n g)"
proof -
  have "sort_newest_first (filter Q g) = filter Q (sort_newest_first g)"
    by (simp add: sort_newest_first_def filter_sort)
  then show ?thesis
    using set_drop_filter [of "nat n" Q "sort_newest_first g"]
    by (auto simp add: excess_def)
qed

lemma aged_filter: "set (aged d h c (filter P xs)) \<subseteq> set (aged d h c xs)"
  by (auto simp add: aged_def)

lemma sweepable_filter: "sweepable h xs \<Longrightarrow> sweepable h (filter P xs)"
  by (simp add: sweepable_def list_all_iff)

lemma files_to_delete_filter:
  assumes "distinct (map name xs)" and "0 \<le> n"
    and "files_to_delete d h a n xs = Inr del"
  shows "\<exists>del'. files_to_delete d h a n (filter P xs) = Inr del' \<and> set del' \<subseteq> set del"
proof -
  from assms(3) obtain c st where c: "cutoff_time h a = Inr c"
    and st: "scan_dir d h c xs = Inr st"
    unfolding files_to_delete_Inr_iff by blast
  from scan_dir_sweepable [OF st] have "sweepable h (filter P xs)"
    by (rule sweepable_filter)
  from files_to_delete_returns [OF c this, of d n] obtain del'
    where del': "files_to_delete d h a n (filter P xs) = Inr del'" ..
  have "set del' \<subseteq> set del"
  proof
    fix p assume "p \<in> set del'"
    then consider
        (old) "p \<in> set (aged d h c (filter P xs))"
      | (many) cat where "p \<in> set (excess n (members d h cat (filter P xs)))"
      unfolding set_files_to_delete [OF assms(2) c del'] by blast
    then show "p \<in> set del"
    proof cases
      case old
      then have "p \<in> set (aged d h c xs)"
        using aged_filter by blast
      then show ?thesis unfolding set_files_to_delete [OF assms(2) c assms(3)] by blast
    next
      case many
      then have "p \<in> set (excess n (members d h cat xs))"
        unfolding members_filter [OF assms(1)] using excess_filter by blast
      then show ?thesis unfolding set_files_to_delete [OF assms(2) c assms(3)] by blast
    qed
  qed
  with del' show ?thesis by blast
qed

text \<open>
  Claim C6, as amended. Names in a directory are distinct and
  \<^verbatim>\<open>max_files_per_category\<close> is not negative. When a call of \<^verbatim>\<open>cleanup_old_files\<close>
  returns, a second call on the file system it left, with the same parameters and the
  clock at the same reading, returns too, deletes no file and leaves the file system
  as it found it: every file the second call marks was marked by the first and is
  still there only because \<^verbatim>\<open>os.remove\<close> raised for it, and it raises again. When the
  first call raises, it has deleted nothing, and the second call raises in the same
  way. In both cases the second call deletes no file.
\<close>

theorem cleanup_twice_at_the_same_time:
  assumes "0 \<le> max_files_per_category"
    and "\<forall>listing. fs data_dir = Some (Directory listing) \<longrightarrow> distinct (map name listing)"
  shows "(\<forall>fs' deleted_count lg.
            cleanup_old_files fs h data_dir max_age_hours max_files_per_category =
              Inr (fs', deleted_count, lg) \<longrightarrow>
            (\<exists>lg'. cleanup_old_files fs' h data_dir max_age_hours max_files_per_category =
                      Inr (fs', 0, lg'))) \<and>
         deleted_count_of
           (cleanup_old_files
              (filesystem_after fs
                 (cleanup_old_files fs h data_dir max_age_hours max_files_per_category))
              h data_dir max_age_hours max_files_per_category) = 0"
proof -
  let ?run = "\<lambda>fs. cleanup_old_files fs h data_dir max_age_hours max_files_per_category"
  let ?del = "files_to_delete data_dir h max_age_hours max_files_per_category"
  have again: "\<exists>lg'. ?run fs' = Inr (fs', 0, lg')" if run: "?run fs = Inr (fs', k, lg)" for fs' k lg
  proof -
    from cleanup_old_files_cases [OF run] show ?thesis
    proof (elim disjE conjE exE)
      assume "fs data_dir = None" "fs' = fs"
      then show ?thesis by (simp add: cleanup_old_files_def)
    next
      fix listing del
      assume present: "fs data_dir = Some (Directory listing)"
          "?del listing = Inr del"
          "fs' = fs(data_dir \<mapsto> Directory (fst (delete_marked data_dir del (listing, 0, []))))"
      from present(1) assms(2) have dist: "distinct (map name listing)" by simp
      let ?listing' = "filter (kept data_dir del) listing"
      have fs': "fs' = fs(data_dir \<mapsto> Directory ?listing')"
        using present(3) delete_marked_listing [OF dist, of data_dir del 0 "[]"] by simp
      from files_to_delete_filter [OF dist assms(1) present(2), of "kept data_dir del"]
      obtain del' where del': "?del ?listing' = Inr del'" and sub: "set del' \<subseteq> set del"
        by blast
      have "\<forall>f \<in> set ?listing'. path_join data_dir (name f) \<in> set del' \<longrightarrow> locked f"
        using sub by (auto simp add: kept_def)
      then have same: "delete_marked data_dir del' (?listing', 0, []) =
                   (?listing', 0, [] @ map Failed_to_delete del')"
        by (rule delete_marked_all_fail)
      have dir: "fs' data_dir = Some (Directory ?listing')" by (simp add: fs')
      from cleanup_old_files_Inr [of fs' data_dir ?listing' h max_age_hours
             max_files_per_category del'] dir del'
      obtain lg' where "?run fs' =
          Inr (fs'(data_dir \<mapsto> Directory (fst (delete_marked data_dir del' (?listing', 0, [])))),
               fst (snd (delete_marked data_dir del' (?listing', 0, []))), lg')"
        by blast
      moreover have "fs'(data_dir \<mapsto> Directory ?listing') = fs'"
        by (simp add: fs')
      ultimately have "?run fs' = Inr (fs', 0, lg')"
        by (simp add: same)
      then show ?thesis ..
    qed
  qed
  have "deleted_count_of (?run (filesystem_after fs (?run fs))) = 0"
  proof (cases "?run fs")
    case (Inl x)
    then show ?thesis by (simp add: filesystem_after_def deleted_count_of_def)
  next
    case (Inr r)
    obtain fs' k lg where r: "r = (fs', k, lg)" by (cases r)
    from again [of fs' k lg] Inr r obtain lg' where "?run fs' = Inr (fs', 0, lg')" by auto
    with Inr r show ?thesis by (simp add: filesystem_after_def deleted_count_of_def)
  qed
  with again show ?thesis by blast
qed

theorem cleanup_twice_witness:
  "(0::int) \<le> 2 \<and>
   cleanup_old_files crowded_cache (zone_host noon 0) ''noaa_data'' 24 2 =
     Inr ([''noaa_data'' \<mapsto>
             Directory
               [snapshot ''primary_xray_flares_20250220115000.json'' (noon - minutes 10),
                snapshot ''primary_xray_flares_20250220114000.json'' (noon - minutes 20),
                \<lparr>name = ''notes.json'', st_mtime = noon - minutes 3000, locked = True,
                 dangling = False\<rparr>]],
          1, [Failed_to_delete ''noaa_data/notes.json'', Cleaned_up 1]) \<and>
   deleted_count_of
     (cleanup_old_files
        (filesystem_after crowded_cache
           (cleanup_old_files crowded_cache (zone_host noon 0) ''noaa_data'' 24 2))
        (zone_host noon 0) ''noaa_data'' 24 2) = 0"
proof -
  have h1: "(0::int) \<le> 2" by simp
  have h2: "\<forall>listing. crowded_cache ''noaa_data'' = Some (Directory listing) \<longrightarrow>
              distinct (map name listing)"
    by (simp add: crowded_cache_def snapshot_def)
  have run: "cleanup_old_files crowded_cache (zone_host noon 0) ''noaa_data'' 24 2 =
     Inr ([''noaa_data'' \<mapsto>
             Directory
               [snapshot ''primary_xray_flares_20250220115000.json'' (noon - minutes 10),
                snapshot ''primary_xray_flares_20250220114000.json'' (noon - minutes 20),
                \<lparr>name = ''notes.json'', st_mtime = noon - minutes 3000, locked = True,
                 dangling = False\<rparr>]],
          1, [Failed_to_delete ''noaa_data/notes.json'', Cleaned_up 1])"
    by (simp add: retention_defs crowded_cache_def)
  from cleanup_twice_at_the_same_time
         [of 2 crowded_cache "''noaa_data''" "zone_host noon 0" 24, OF h1 h2]
  have "deleted_count_of
     (cleanup_old_files
        (filesystem_after crowded_cache
           (cleanup_old_files crowded_cache (zone_host noon 0) ''noaa_data'' 24 2))
        (zone_host noon 0) ''noaa_data'' 24 2) = 0"
    by (rule conjunct2)
  with h1 run show ?thesis by (simp only: simp_thms)
qed

text \<open>
  Claim C6, as stated, fails in two ways. For a later clock time: a file that is 23
  hours old is kept by a call at noon and deleted by the next call two hours later,
  with no file created in between. And for a negative \<^verbatim>\<open>max_files_per_category\<close>, at
  the same clock reading: with \<^verbatim>\<open>-1\<close> the slice \<^verbatim>\<open>files[-1:]\<close> is the oldest file of the
  category, so of three files the first call deletes the oldest and the second call
  deletes the oldest of the two that are left.
\<close>

theorem later_cleanup_counterexample:
  "cleanup_old_files one_day_old_file (zone_host noon 0) ''noaa_data'' 24 5 =
     Inr (one_day_old_file, 0, []) \<and>
   utcnow (zone_host noon 0) \<le> utcnow (zone_host (noon + minutes 120) 0) \<and>
   cleanup_old_files one_day_old_file (zone_host (noon + minutes 120) 0) ''noaa_data'' 24 5 =
     Inr ([''noaa_data'' \<mapsto> Directory []], 1, [Cleaned_up 1]) \<and>
   cleanup_old_files [''noaa_data'' \<mapsto> Directory three_flares] (zone_host noon 0)
     ''noaa_data'' 24 (- 1) =
     Inr ([''noaa_data'' \<mapsto>
             Directory
               [snapshot ''primary_xray_flares_20250220115000.json'' (noon - minutes 10),
                snapshot ''primary_xray_flares_20250220114000.json'' (noon - minutes 20)]],
          1, [Cleaned_up 1]) \<and>
   cleanup_old_files
     [''noaa_data'' \<mapsto>
        Directory
          [snapshot ''primary_xray_flares_20250220115000.json'' (noon - minutes 10),
           snapshot ''primary_xray_flares_20250220114000.json'' (noon - minutes 20)]]
     (zone_host noon 0) ''noaa_data'' 24 (- 1) =
     Inr ([''noaa_data'' \<mapsto>
             Directory
               [snapshot ''primary_xray_flares_20250220115000.json'' (noon - minutes 10)]],
          1, [Cleaned_up 1])"
  by (simp add: retention_defs one_day_old_file_def three_flares_def)

section \<open>Properties of the fetch orchestrator and the resolver\<close>

subsection \<open>The transport\<close>

lemma urlopen_unchanged:
  "snapshots (snd (urlopen e fl rq n w)) = snapshots w \<and>
   logged (snd (urlopen e fl rq n w)) = logged w"
  by (induction n arbitrary: w) (simp_all add: Let_def split: reply.splits)

lemma urlopen_sent:
  "\<exists>k. 0 < k \<and> k \<le> Suc n \<and> sent (snd (urlopen e fl rq n w)) = sent w @ replicate k rq"
proof (induction n arbitrary: w)
  case 0
  have "sent (snd (urlopen e fl rq 0 w)) = sent w @ replicate 1 rq"
    by (simp add: Let_def split: reply.splits)
  then show ?case by (intro exI [of _ 1]) simp
next
  case (Suc n)
  let ?w' = "w\<lparr>sent := sent w @ [rq]\<rparr>"
  from Suc [of ?w'] obtain k where k: "0 < k" "k \<le> Suc n"
    "sent (snd (urlopen e fl rq n ?w')) = sent ?w' @ replicate k rq" by blast
  have "sent (snd (urlopen e fl rq (Suc n) w)) = sent w @ replicate 1 rq \<or>
        sent (snd (urlopen e fl rq (Suc n) w)) = sent w @ replicate (Suc k) rq"
    using k(3) by (simp add: Let_def split: reply.splits)
  then show ?case using k(1,2)
    by (metis Suc_le_mono le_SucI less_Suc_eq_le zero_less_Suc One_nat_def)
qed

lemma urlopen_first:
  "\<exists>rest. sent (snd (urlopen e fl rq n w)) = sent w @ rq # rest"
proof -
  from urlopen_sent [of n e fl rq w] obtain k
    where k: "0 < k" "sent (snd (urlopen e fl rq n w)) = sent w @ replicate k rq" by blast
  from k(1) obtain j where "k = Suc j" by (cases k) simp_all
  with k(2) show ?thesis by simp
qed

lemma urlopen_raises:
  "fst (urlopen e fl rq n w) = Inl x \<Longrightarrow> is_RequestException x"
  by (induction n arbitrary: w) (auto simp add: Let_def split: reply.splits if_splits)

lemma urlopen_final:
  "server e (sent w) rq = Answer st txt \<Longrightarrow> st \<notin> set fl \<Longrightarrow>
   urlopen e fl rq n w =
     (Inr (\<lparr>status_code = st, body = txt\<rparr>, None), w\<lparr>sent := sent w @ [rq]\<rparr>)"
  by (cases n) (simp_all add: Let_def)

lemma urlopen_exhausted:
  "\<forall>hist. \<exists>st txt. server e hist rq = Answer st txt \<and> st \<in> set fl \<Longrightarrow>
   urlopen e fl rq n w = (Inl RetryError, w\<lparr>sent := sent w @ replicate (Suc n) rq\<rparr>)"
proof (induction n arbitrary: w)
  case 0
  then obtain st tx where "server e (sent w) rq = Answer st tx" "st \<in> set fl" by blast
  then show ?case by simp
next
  case (Suc n)
  then obtain st tx where a: "server e (sent w) rq = Answer st tx" "st \<in> set fl" by blast
  have "urlopen e fl rq (Suc n) w = urlopen e fl rq n (w\<lparr>sent := sent w @ [rq]\<rparr>)"
    using a by simp
  also have "\<dots> = (Inl RetryError, w\<lparr>sent := sent w @ [rq] @ replicate (Suc n) rq\<rparr>)"
    using Suc.IH [OF Suc.prems, of "w\<lparr>sent := sent w @ [rq]\<rparr>"] by simp
  finally show ?case by (simp add: replicate_app_Cons_same)
qed

lemma urlopen_no_location:
  "\<forall>hist st loc. server e hist rq \<noteq> Moved st loc \<Longrightarrow>
   fst (urlopen e fl rq n w) = Inr r \<Longrightarrow> snd r = None"
  by (induction n arbitrary: w) (auto simp add: Let_def split: reply.splits if_splits)

lemma send_unchanged:
  "snapshots (snd (send e fl retries n url w)) = snapshots w \<and>
   logged (snd (send e fl retries n url w)) = logged w"
proof (induction n arbitrary: url w)
  case 0
  obtain res w' where u: "urlopen e fl (GET, url) retries w = (res, w')"
    by (cases "urlopen e fl (GET, url) retries w")
  with urlopen_unchanged [of e fl "(GET, url)" retries w]
  show ?case by (auto split: sum.splits option.splits)
next
  case (Suc n)
  obtain res w' where u: "urlopen e fl (GET, url) retries w = (res, w')"
    by (cases "urlopen e fl (GET, url) retries w")
  with urlopen_unchanged [of e fl "(GET, url)" retries w] Suc [of _ w']
  show ?case by (auto split: sum.splits option.splits)
qed

lemma send_raises:
  "fst (send e fl retries n url w) = Inl x \<Longrightarrow> is_RequestException x"
proof (induction n arbitrary: url w)
  case 0
  obtain res w' where u: "urlopen e fl (GET, url) retries w = (res, w')"
    by (cases "urlopen e fl (GET, url) retries w")
  with 0 urlopen_raises [of e fl "(GET, url)" retries w x]
  show ?case by (auto split: sum.splits option.splits)
next
  case (Suc n)
  obtain res w' where u: "urlopen e fl (GET, url) retries w = (res, w')"
    by (cases "urlopen e fl (GET, url) retries w")
  with Suc.prems urlopen_raises [of e fl "(GET, url)" retries w x] Suc.IH [of _ w']
  show ?case by (auto split: sum.splits option.splits)
qed

lemma send_final:
  "server e (sent w) (GET, url) = Answer st txt \<Longrightarrow> st \<notin> set fl \<Longrightarrow>
   send e fl retries n url w =
     (Inr \<lparr>status_code = st, body = txt\<rparr>, w\<lparr>sent := sent w @ [(GET, url)]\<rparr>)"
  by (cases n) (simp_all add: urlopen_final get_redirect_target_def)

lemma send_exhausted:
  "\<forall>hist. \<exists>st txt. server e hist (GET, url) = Answer st txt \<and> st \<in> set fl \<Longrightarrow>
   send e fl retries n url w =
     (Inl RetryError, w\<lparr>sent := sent w @ replicate (Suc retries) (GET, url)\<rparr>)"
  by (cases n) (simp_all add: urlopen_exhausted)

lemma send_first:
  "\<exists>rest. sent (snd (send e fl retries n url w)) = sent w @ (GET, url) # rest"
proof (induction n arbitrary: url w)
  case 0
  obtain res w' where u: "urlopen e fl (GET, url) retries w = (res, w')"
    by (cases "urlopen e fl (GET, url) retries w")
  with urlopen_first [of e fl "(GET, url)" retries w]
  show ?case by (auto split: sum.splits option.splits)
next
  case (Suc n)
  obtain res w' where u: "urlopen e fl (GET, url) retries w = (res, w')"
    by (cases "urlopen e fl (GET, url) retries w")
  from urlopen_first [of e fl "(GET, url)" retries w] u
  obtain rest where rest: "sent w' = sent w @ (GET, url) # rest" by auto
  have "snd (send e fl retries (Suc n) url w) = w' \<or>
        (\<exists>loc. snd (send e fl retries (Suc n) url w) = snd (send e fl retries n loc w'))"
    using u by (auto split: sum.splits option.splits)
  then show ?case
  proof (elim disjE exE)
    assume "snd (send e fl retries (Suc n) url w) = w'"
    with rest show ?thesis by simp
  next
    fix loc
    assume s: "snd (send e fl retries (Suc n) url w) = snd (send e fl retries n loc w')"
    from Suc [of loc w'] obtain rest' where
      "sent (snd (send e fl retries n loc w')) = sent w' @ (GET, loc) # rest'" by blast
    with s rest show ?thesis by simp
  qed
qed

lemma send_direct:
  assumes "\<forall>hist rq st loc. server e hist rq \<noteq> Moved st loc"
  shows "\<exists>k. sent (snd (send e fl retries n url w)) = sent w @ replicate k (GET, url)"
proof -
  obtain res w' where u: "urlopen e fl (GET, url) retries w = (res, w')"
    by (cases "urlopen e fl (GET, url) retries w")
  from urlopen_sent [of retries e fl "(GET, url)" w] u
  obtain k where k: "sent w' = sent w @ replicate k (GET, url)" by auto
  have "get_redirect_target r = None" if "res = Inr r" for r
    using urlopen_no_location [of e "(GET, url)" fl retries w r] assms u that
    by (simp add: get_redirect_target_def)
  with u have "snd (send e fl retries n url w) = w'"
    by (cases n; cases res) auto
  with k show ?thesis by auto
qed

lemma session_get_final:
  "server e (sent w) (GET, url) = Answer st txt \<Longrightarrow> st \<notin> set (status_forcelist session_retry) \<Longrightarrow>
   session_get e url w =
     (Inr \<lparr>status_code = st, body = txt\<rparr>, w\<lparr>sent := sent w @ [(GET, url)]\<rparr>)"
  by (simp add: session_get_def send_final)

lemma session_get_unchanged:
  "snapshots (snd (session_get e url w)) = snapshots w \<and>
   logged (snd (session_get e url w)) = logged w"
  by (simp add: session_get_def send_unchanged)

lemma session_get_raises:
  "session_get e url w = (Inl x, w') \<Longrightarrow> is_RequestException x"
  using send_raises [of e "status_forcelist session_retry" "total' session_retry"
      max_redirects url w x]
  by (simp add: session_get_def)

lemma session_get_first:
  "\<exists>rest. sent (snd (session_get e url w)) = sent w @ (GET, url) # rest"
  unfolding session_get_def by (rule send_first)

lemma session_get_direct:
  "\<forall>hist rq st loc. server e hist rq \<noteq> Moved st loc \<Longrightarrow>
   \<exists>k. sent (snd (session_get e url w)) = sent w @ replicate k (GET, url)"
  unfolding session_get_def by (rule send_direct)

lemma requests_get_final:
  "server e (sent w) (GET, url) = Answer st txt \<Longrightarrow>
   requests_get e url w =
     (Inr \<lparr>status_code = st, body = txt\<rparr>, w\<lparr>sent := sent w @ [(GET, url)]\<rparr>)"
  by (simp add: requests_get_def send_final)

lemma requests_get_first:
  "\<exists>rest. sent (snd (requests_get e url w)) = sent w @ (GET, url) # rest"
  unfolding requests_get_def by (rule send_first)

lemma requests_head_sent:
  "sent (snd (requests_head e url w)) = sent w @ [(HEAD, url)]"
  by (simp add: requests_head_def Let_def split: reply.splits)

lemma requests_head_final:
  "server e (sent w) (HEAD, url) = Answer st txt \<Longrightarrow>
   requests_head e url w =
     (Inr \<lparr>status_code = st, body = txt\<rparr>, w\<lparr>sent := sent w @ [(HEAD, url)]\<rparr>)"
  by (simp add: requests_head_def Let_def)

lemma not_found_not_retried: "404 \<notin> set (status_forcelist session_retry)"
  by (simp add: session_retry_def)

lemma raise_for_status_raises:
  "raise_for_status r = Inl x \<Longrightarrow> is_RequestException x"
  by (auto simp add: raise_for_status_def split: if_splits)

text \<open>
  A redirect is followed: the session asks the URL that the \<^verbatim>\<open>Location\<close> header
  names, and the response is the answer of that URL.
\<close>

lemma redirect_is_followed:
  "session_get
     (example_env (Answer 200 ''[]'')
        [((GET, NOAA_BASE_URL @ ''ace/mag/ace_mag_1h.json''),
            [Moved 302 ''https://services.swpc.noaa.gov/products/mag.json''])]
        [(''[]'', JArr [])] [])
     (NOAA_BASE_URL @ ''ace/mag/ace_mag_1h.json'') world0 =
   (Inr \<lparr>status_code = 200, body = ''[]''\<rparr>,
    world0\<lparr>sent := [(GET, NOAA_BASE_URL @ ''ace/mag/ace_mag_1h.json''),
                     (GET, ''https://services.swpc.noaa.gov/products/mag.json'')]\<rparr>)"
  by (simp add: session_get_def session_retry_def max_redirects_def eval_nat_numeral
      get_redirect_target_def example_env_def scripted_def world0_def NOAA_BASE_URL_def
      Let_def)

subsection \<open>Which exceptions leave the loop, and what a step changes\<close>

text \<open>
  \<^verbatim>\<open>except RequestException\<close> lets every other exception through: the \<^verbatim>\<open>KeyError\<close> of
  the resolver, and in the \<^verbatim>\<open>try\<close> block what the parser and the snapshot write raise
  outside the request classes.
\<close>

lemma caught_raises:
  "fst (caught k x fd w) = Inl y \<Longrightarrow> y = x \<and> \<not> is_RequestException x"
  by (auto simp add: caught_def split: if_splits)

lemma fetch_url_raises:
  assumes "fst (fetch_url e c k url fetched_data w) = Inl x"
  shows "\<not> is_RequestException x"
proof -
  obtain res w' where s: "session_get e url w = (res, w')"
    by (cases "session_get e url w")
  show ?thesis
  proof (cases res)
    case (Inl y)
    with s assms session_get_raises [of e url w y w'] show ?thesis
      by (auto simp add: fetch_url_def caught_def split: if_splits)
  next
    case (Inr r)
    with s assms raise_for_status_raises [of r] show ?thesis
      by (auto simp add: fetch_url_def caught_def Let_def
          split: sum.splits option.splits if_splits)
  qed
qed

lemma try_alternates_returns: "\<exists>r. fst (try_alternates e eps w) = Inr r"
proof (induction eps arbitrary: w)
  case Nil
  then show ?case by simp
next
  case (Cons ep eps)
  show ?case
  proof (cases "session_get e (NOAA_BASE_URL @ ep) w")
    case (Pair res w')
    show ?thesis
    proof (cases res)
      case (Inl x)
      with Pair have "is_RequestException x" by (auto dest: session_get_raises)
      with Pair Inl Cons [of w'] show ?thesis by simp
    next
      case (Inr r)
      show ?thesis
      proof (cases "raise_for_status r")
        case (Inl x)
        then have "is_RequestException x" by (rule raise_for_status_raises)
        with Pair Inr Inl Cons [of w'] show ?thesis by simp
      next
        case Inr': (Inr u)
        with Pair Inr show ?thesis by simp
      qed
    qed
  qed
qed

lemma get_latest_file_url_raises:
  "fst (get_latest_file_url e b k w) = Inl x \<Longrightarrow> x = KeyError k \<and> map_of TERTIARY_ENDPOINTS k = None"
  by (auto simp add: get_latest_file_url_def Let_def split: option.splits prod.splits)

lemma resolve_url_raises:
  assumes "fst (resolve_url e k ep w) = Inl x"
  shows "x = KeyError k \<and> (\<exists>p. ep = Path p \<and> endswith p ''/'') \<and>
         map_of TERTIARY_ENDPOINTS k = None"
proof (cases ep)
  case (Path p)
  show ?thesis
  proof (cases "endswith p ''/''")
    case True
    obtain res w' where g: "get_latest_file_url e NOAA_BASE_URL k w = (res, w')"
      by (cases "get_latest_file_url e NOAA_BASE_URL k w")
    show ?thesis
    proof (cases res)
      case (Inl y)
      with g assms Path True have "x = y" by (simp add: resolve_url_def)
      with g Inl get_latest_file_url_raises [of e NOAA_BASE_URL k w y] Path True
      show ?thesis by simp
    next
      case (Inr u)
      with g assms Path True
      show ?thesis by (auto simp add: resolve_url_def split: option.splits if_splits)
    qed
  next
    case False
    with assms Path
    show ?thesis by (auto simp add: resolve_url_def)
  qed
next
  case (Alternates eps)
  obtain res w' where t: "try_alternates e eps w = (res, w')"
    by (cases "try_alternates e eps w")
  with try_alternates_returns [of e eps w] obtain r where "res = Inr r" by auto
  with t assms Alternates
  show ?thesis by (auto simp add: resolve_url_def split: option.splits)
qed

lemma fetch_key_raises:
  assumes "fst (fetch_key e c k ep fetched_data w) = Inl x"
  shows "\<not> is_RequestException x"
proof -
  obtain res w' where r: "resolve_url e k ep w = (res, w')"
    by (cases "resolve_url e k ep w")
  show ?thesis
  proof (cases res)
    case (Inl y)
    with r assms have "x = y" by (simp add: fetch_key_def)
    with r Inl resolve_url_raises [of e k ep w y] show ?thesis by auto
  next
    case (Inr u)
    show ?thesis
    proof (cases u)
      case None
      with r Inr assms show ?thesis by (simp add: fetch_key_def)
    next
      case (Some url)
      with r Inr assms have "fst (fetch_url e c k url fetched_data w') = Inl x"
        by (simp add: fetch_key_def)
      then show ?thesis by (rule fetch_url_raises)
    qed
  qed
qed

lemma fetch_loop_append:
  "fetch_loop e c (xs @ ys) fetched_data w =
     (case fetch_loop e c xs fetched_data w of
        (Inl x, w') \<Rightarrow> (Inl x, w')
      | (Inr fd, w') \<Rightarrow> fetch_loop e c ys fd w')"
  by (induction xs arbitrary: fetched_data w) (auto split: prod.splits sum.splits)

lemma fetch_key_missing:
  "endswith p ''/'' \<Longrightarrow> map_of TERTIARY_ENDPOINTS k = None \<Longrightarrow>
   fetch_key e c k (Path p) fetched_data w = (Inl (KeyError k), w)"
  by (simp add: fetch_key_def resolve_url_def get_latest_file_url_def)

lemma fetch_loop_never_returns:
  "(k, Path p) \<in> set xs \<Longrightarrow> endswith p ''/'' \<Longrightarrow> map_of TERTIARY_ENDPOINTS k = None \<Longrightarrow>
   \<exists>x. fst (fetch_loop e c xs fetched_data w) = Inl x"
proof (induction xs arbitrary: fetched_data w)
  case Nil
  then show ?case by simp
next
  case (Cons item xs)
  obtain k0 ep where item: "item = (k0, ep)" by (cases item)
  obtain res w' where f: "fetch_key e c k0 ep fetched_data w = (res, w')"
    by (cases "fetch_key e c k0 ep fetched_data w")
  show ?case
  proof (cases res)
    case (Inl y)
    with f item show ?thesis by auto
  next
    case (Inr fd)
    with f Cons.prems(2,3) fetch_key_missing [of p k e c fetched_data w] item
    have "item \<noteq> (k, Path p)" by auto
    with Cons.prems have "(k, Path p) \<in> set xs" by simp
    from Cons.IH [OF this Cons.prems(2,3), of fd w'] f Inr item show ?thesis by simp
  qed
qed

lemma fetch_url_other_keys:
  "fst (fetch_url e c k url fetched_data w) = Inr fd' \<Longrightarrow> k' \<noteq> k \<Longrightarrow> fd' k' = fetched_data k'"
  by (auto simp add: fetch_url_def caught_def Let_def
      split: prod.splits sum.splits option.splits if_splits)

lemma fetch_key_other_keys:
  "fst (fetch_key e c k ep fetched_data w) = Inr fd' \<Longrightarrow> k' \<noteq> k \<Longrightarrow> fd' k' = fetched_data k'"
  by (auto simp add: fetch_key_def split: prod.splits sum.splits option.splits
      dest: fetch_url_other_keys)

lemma fetch_loop_other_keys:
  "fst (fetch_loop e c items fetched_data w) = Inr fd' \<Longrightarrow> k' \<notin> fst ` set items \<Longrightarrow>
   fd' k' = fetched_data k'"
proof (induction items arbitrary: fetched_data w)
  case Nil
  then show ?case by simp
next
  case (Cons item items)
  obtain k ep where item: "item = (k, ep)" by (cases item)
  obtain res w' where f: "fetch_key e c k ep fetched_data w = (res, w')"
    by (cases "fetch_key e c k ep fetched_data w")
  with Cons.prems(1) item obtain fd1 where fd1: "res = Inr fd1"
    by (cases res) auto
  from f fd1 Cons.prems item have "fd1 k' = fetched_data k'"
    using fetch_key_other_keys [of e c k ep fetched_data w fd1 k'] by auto
  moreover from Cons.IH [of fd1 w'] Cons.prems f fd1 item have "fd' k' = fd1 k'" by auto
  ultimately show ?case by simp
qed

lemma fetch_loop_after:
  assumes "fetch_key e c k ep fetched_data w = (Inr fd1, w1)"
    and "k \<notin> fst ` set rest"
    and "fst (fetch_loop e c ((k, ep) # rest) fetched_data w) = Inr fd'"
  shows "fd' k = fd1 k"
  using assms fetch_loop_other_keys [of e c rest fd1 w1 fd' k] by simp

subsection \<open>A list of alternates\<close>

lemma try_alternates_direct:
  assumes "\<forall>hist rq st loc. server e hist rq \<noteq> Moved st loc"
  shows "\<exists>rs. sent (snd (try_alternates e eps w)) = sent w @ rs \<and>
              set rs \<subseteq> (\<lambda>ep. (GET, NOAA_BASE_URL @ ep)) ` set eps"
proof (induction eps arbitrary: w)
  case Nil
  then show ?case by simp
next
  case (Cons ep eps)
  obtain res w' where s: "session_get e (NOAA_BASE_URL @ ep) w = (res, w')"
    by (cases "session_get e (NOAA_BASE_URL @ ep) w")
  from session_get_direct [OF assms, of "NOAA_BASE_URL @ ep" w] s
  obtain k where k: "sent w' = sent w @ replicate k (GET, NOAA_BASE_URL @ ep)" by auto
  from Cons [of w'] obtain rs where rs: "sent (snd (try_alternates e eps w')) = sent w' @ rs"
    "set rs \<subseteq> (\<lambda>ep. (GET, NOAA_BASE_URL @ ep)) ` set eps" by blast
  have "snd (try_alternates e (ep # eps) w) = w' \<or>
        snd (try_alternates e (ep # eps) w) = snd (try_alternates e eps w')"
    using s by (auto split: sum.splits)
  then show ?case
  proof
    assume "snd (try_alternates e (ep # eps) w) = w'"
    with k show ?thesis
      by (intro exI [of _ "replicate k (GET, NOAA_BASE_URL @ ep)"]) auto
  next
    assume "snd (try_alternates e (ep # eps) w) = snd (try_alternates e eps w')"
    with k rs show ?thesis
      by (intro exI [of _ "replicate k (GET, NOAA_BASE_URL @ ep) @ rs"]) auto
  qed
qed

lemma try_alternates_append:
  "try_alternates e pre w = (Inr None, w1) \<Longrightarrow>
   try_alternates e (pre @ rest) w = try_alternates e rest w1"
proof (induction pre arbitrary: w)
  case Nil
  then show ?case by simp
next
  case (Cons ep pre)
  obtain res w' where s: "session_get e (NOAA_BASE_URL @ ep) w = (res, w')"
    by (cases "session_get e (NOAA_BASE_URL @ ep) w")
  from Cons.prems s have "try_alternates e pre w' = (Inr None, w1) \<and>
      try_alternates e (ep # pre @ rest) w = try_alternates e (pre @ rest) w'"
    by (auto split: sum.splits if_splits)
  with Cons.IH [of w'] show ?case by simp
qed

text \<open>
  Claim C1, as amended. The loop over the alternates only chooses the URL: after the
  \<^verbatim>\<open>break\<close> the \<^verbatim>\<open>try\<close> block requests that URL a second time, and the stored payload is
  the body of the second response. If the alternates before \<^verbatim>\<open>a\<close> all fail, the request
  for \<^verbatim>\<open>a\<close> succeeds, the second request for \<^verbatim>\<open>a\<close> succeeds with a body that parses,
  and the snapshot file can be written, then the loop over the alternates ends at \<^verbatim>\<open>a\<close>
  with the requests sent so far, the mapping holds the payload of the second response
  under the key, and a snapshot of it is written. The step is the same whatever
  alternates follow \<^verbatim>\<open>a\<close>: nothing is requested for them. When the server sends no
  redirect, every request of the step went to the URL of \<^verbatim>\<open>a\<close> or of an alternate
  before it. The mapping that the run returns still holds that payload under the key.
\<close>

theorem first_good_alternate_is_fetched_again:
  assumes "try_alternates e pre w = (Inr None, w1)"
    and "session_get e (NOAA_BASE_URL @ a) w1 = (Inr r1, w2)"
    and "raise_for_status r1 = Inr ()"
    and "session_get e (NOAA_BASE_URL @ a) w2 = (Inr r2, w3)"
    and "raise_for_status r2 = Inr ()"
    and "json_loads e (body r2) = Inr data"
    and "open_error e
           (path_join DATA_DIR
              (category @ ''_'' @ key @ ''_'' @ utcnow_stamp e (sent w3) @ ''.json'')) = None"
  shows "resolve_url e key (Alternates (pre @ a # post)) w =
           (Inr (Some (NOAA_BASE_URL @ a)), w2) \<and>
         fetch_key e category key (Alternates (pre @ a # post)) fetched_data w =
           (Inr (fetched_data(key \<mapsto> data)),
            logging (Successfully_fetched key category)
              (w3\<lparr>snapshots := (snapshots w3)
                  (path_join DATA_DIR
                     (category @ ''_'' @ key @ ''_'' @ utcnow_stamp e (sent w3) @ ''.json'')
                   \<mapsto> data)\<rparr>)) \<and>
         fetch_key e category key (Alternates (pre @ a # post)) fetched_data w =
           fetch_key e category key (Alternates (pre @ [a])) fetched_data w \<and>
         ((\<forall>hist rq st loc. server e hist rq \<noteq> Moved st loc) \<longrightarrow>
          (\<exists>rs. sent w3 = sent w @ rs \<and>
                set rs \<subseteq> (\<lambda>ep. (GET, NOAA_BASE_URL @ ep)) ` set (pre @ [a]))) \<and>
         (\<forall>rest fd'.
            key \<notin> fst ` set rest \<and>
            fst (fetch_loop e category ((key, Alternates (pre @ a # post)) # rest)
                   fetched_data w) = Inr fd' \<longrightarrow>
            fd' key = Some data)"
proof -
  have chosen: "try_alternates e (pre @ a # rest) w = (Inr (Some (NOAA_BASE_URL @ a)), w2)"
    for rest
    using try_alternates_append [OF assms(1), of "a # rest"] assms(2,3) by simp
  then have resolved: "resolve_url e key (Alternates (pre @ a # rest)) w =
               (Inr (Some (NOAA_BASE_URL @ a)), w2)" for rest
    by (simp add: resolve_url_def)
  then have step: "fetch_key e category key (Alternates (pre @ a # rest)) fetched_data w =
               fetch_url e category key (NOAA_BASE_URL @ a) fetched_data w2" for rest
    by (simp add: fetch_key_def)
  have "fetch_url e category key (NOAA_BASE_URL @ a) fetched_data w2 =
          (Inr (fetched_data(key \<mapsto> data)),
            logging (Successfully_fetched key category)
              (w3\<lparr>snapshots := (snapshots w3)
                  (path_join DATA_DIR
                     (category @ ''_'' @ key @ ''_'' @ utcnow_stamp e (sent w3) @ ''.json'')
                   \<mapsto> data)\<rparr>))"
    using assms(4-7) by (simp add: fetch_url_def response_json_def Let_def)
  with step [of post]
  have first: "fetch_key e category key (Alternates (pre @ a # post)) fetched_data w =
           (Inr (fetched_data(key \<mapsto> data)),
            logging (Successfully_fetched key category)
              (w3\<lparr>snapshots := (snapshots w3)
                  (path_join DATA_DIR
                     (category @ ''_'' @ key @ ''_'' @ utcnow_stamp e (sent w3) @ ''.json'')
                   \<mapsto> data)\<rparr>))"
    by simp
  have same: "fetch_key e category key (Alternates (pre @ a # post)) fetched_data w =
           fetch_key e category key (Alternates (pre @ [a])) fetched_data w"
    using step [of post] step [of "[]"] by simp
  have requests: "\<exists>rs. sent w3 = sent w @ rs \<and>
               set rs \<subseteq> (\<lambda>ep. (GET, NOAA_BASE_URL @ ep)) ` set (pre @ [a])"
    if direct: "\<forall>hist rq st loc. server e hist rq \<noteq> Moved st loc"
  proof -
    from try_alternates_direct [OF direct, of pre w] assms(1)
    obtain rs where rs: "sent w1 = sent w @ rs"
      "set rs \<subseteq> (\<lambda>ep. (GET, NOAA_BASE_URL @ ep)) ` set pre" by auto
    from session_get_direct [OF direct, of "NOAA_BASE_URL @ a" w1] assms(2)
    obtain k where k: "sent w2 = sent w1 @ replicate k (GET, NOAA_BASE_URL @ a)" by auto
    from session_get_direct [OF direct, of "NOAA_BASE_URL @ a" w2] assms(4)
    obtain j where j: "sent w3 = sent w2 @ replicate j (GET, NOAA_BASE_URL @ a)" by auto
    have "sent w3 = sent w @ (rs @ replicate k (GET, NOAA_BASE_URL @ a) @
                                replicate j (GET, NOAA_BASE_URL @ a))"
      using rs(1) k j by simp
    moreover have "set (rs @ replicate k (GET, NOAA_BASE_URL @ a) @
                         replicate j (GET, NOAA_BASE_URL @ a))
                   \<subseteq> (\<lambda>ep. (GET, NOAA_BASE_URL @ ep)) ` set (pre @ [a])"
      using rs(2) by auto
    ultimately show ?thesis by blast
  qed
  have "fd' key = Some data"
    if "key \<notin> fst ` set rest \<and>
        fst (fetch_loop e category ((key, Alternates (pre @ a # post)) # rest)
               fetched_data w) = Inr fd'" for rest fd'
    using fetch_loop_after [OF first, of rest fd'] that by simp
  with resolved [of post] first same requests show ?thesis by blast
qed

theorem first_good_alternate_witness:
  "fetch_key steady_mirror ''secondary'' ''geomagnetic_kp_7d''
     (Alternates [''geospace/geospce_pred_est_kp_7_day.json'',
                  ''geospace/geosapce_pred_est_kp_7_day.json'',
                  ''geospace/geospace_pred_est_kp_7_day.json''])
     Map.empty world0 =
   (Inr [''geomagnetic_kp_7d'' \<mapsto> JArr []],
    \<lparr>sent = [(GET, NOAA_BASE_URL @ ''geospace/geospce_pred_est_kp_7_day.json''),
             (GET, NOAA_BASE_URL @ ''geospace/geosapce_pred_est_kp_7_day.json''),
             (GET, NOAA_BASE_URL @ ''geospace/geosapce_pred_est_kp_7_day.json'')],
     snapshots = [''noaa_data/secondary_geomagnetic_kp_7d_20250220120000.json'' \<mapsto> JArr []],
     logged = [Successfully_fetched ''geomagnetic_kp_7d'' ''secondary'']\<rparr>)"
proof -
  let ?a1 = "''geospace/geospce_pred_est_kp_7_day.json''"
  let ?a2 = "''geospace/geosapce_pred_est_kp_7_day.json''"
  let ?w1 = "world0\<lparr>sent := [(GET, NOAA_BASE_URL @ ?a1)]\<rparr>"
  let ?w2 = "world0\<lparr>sent := [(GET, NOAA_BASE_URL @ ?a1), (GET, NOAA_BASE_URL @ ?a2)]\<rparr>"
  let ?w3 = "world0\<lparr>sent := [(GET, NOAA_BASE_URL @ ?a1), (GET, NOAA_BASE_URL @ ?a2),
                              (GET, NOAA_BASE_URL @ ?a2)]\<rparr>"
  let ?r = "\<lparr>status_code = 200, body = ''[]''\<rparr>"
  have s1: "server steady_mirror (sent world0) (GET, NOAA_BASE_URL @ ?a1) = Answer 404 []"
    by (simp add: steady_mirror_def example_env_def scripted_def)
  have s2: "server steady_mirror (sent ?w1) (GET, NOAA_BASE_URL @ ?a2) = Answer 200 ''[]''"
    by (simp add: steady_mirror_def example_env_def scripted_def NOAA_BASE_URL_def)
  have s3: "server steady_mirror (sent ?w2) (GET, NOAA_BASE_URL @ ?a2) = Answer 200 ''[]''"
    by (simp add: steady_mirror_def example_env_def scripted_def NOAA_BASE_URL_def)
  have ok: "(200::nat) \<notin> set (status_forcelist session_retry)"
    by (simp add: session_retry_def)
  have h1: "try_alternates steady_mirror [?a1] world0 = (Inr None, ?w1)"
    using session_get_final [OF s1 not_found_not_retried]
    by (simp add: raise_for_status_def world0_def)
  have h2: "session_get steady_mirror (NOAA_BASE_URL @ ?a2) ?w1 = (Inr ?r, ?w2)"
    using session_get_final [OF s2 ok] by simp
  have h3: "raise_for_status ?r = Inr ()"
    by (simp add: raise_for_status_def)
  have h4: "session_get steady_mirror (NOAA_BASE_URL @ ?a2) ?w2 = (Inr ?r, ?w3)"
    using session_get_final [OF s3 ok] by simp
  have h5: "json_loads steady_mirror (body ?r) = Inr (JArr [])"
    by (simp add: steady_mirror_def example_env_def)
  have h6: "open_error steady_mirror
           (path_join DATA_DIR
              (''secondary'' @ ''_'' @ ''geomagnetic_kp_7d'' @ ''_'' @
               utcnow_stamp steady_mirror (sent ?w3) @ ''.json'')) = None"
    by (simp add: steady_mirror_def example_env_def)
  have h7: "\<forall>hist rq st loc. server steady_mirror hist rq \<noteq> Moved st loc"
    by (simp add: steady_mirror_def example_env_def scripted_def)
  from first_good_alternate_is_fetched_again [of steady_mirror "[?a1]" world0 ?w1 ?a2 ?r ?w2 ?r ?w3 "JArr []" "''secondary''" "''geomagnetic_kp_7d''" "[''geospace/geospace_pred_est_kp_7_day.json'']" Map.empty, OF h1 h2 h3 h4 h3 h5 h6]
    h7
  show ?thesis
    by (simp add: logging_def world0_def DATA_DIR_def path_join_def endswith_def
        steady_mirror_def example_env_def)
qed

text \<open>
  Claim C1, as stated, fails. The first alternate answers 404. In the first run the
  second answers 200 to the request of the loop and 404 to the request of the \<^verbatim>\<open>try\<close>
  block that follows; in the second run it answers 200 to both, with a body that is
  not JSON. Either way the returned mapping is empty. In the third run it answers 200
  to both with a body that parses, and the snapshot cannot be written: the \<^verbatim>\<open>OSError\<close>
  leaves the function and no mapping is returned.
\<close>

theorem alternate_payload_counterexample:
  "fetch_noaa_data flaky_mirror
     [(''geomagnetic_kp_7d'',
         Alternates [''geospace/geospce_pred_est_kp_7_day.json'',
                     ''geospace/geosapce_pred_est_kp_7_day.json''])]
     ''secondary'' world0 =
   (Inr Map.empty,
    \<lparr>sent = [(GET, NOAA_BASE_URL @ ''geospace/geospce_pred_est_kp_7_day.json''),
             (GET, NOAA_BASE_URL @ ''geospace/geosapce_pred_est_kp_7_day.json''),
             (GET, NOAA_BASE_URL @ ''geospace/geosapce_pred_est_kp_7_day.json'')],
     snapshots = Map.empty,
     logged = [Error_fetching ''geomagnetic_kp_7d'' (HTTPError 404)]\<rparr>) \<and>
   fetch_noaa_data html_mirror
     [(''geomagnetic_kp_7d'',
         Alternates [''geospace/geospce_pred_est_kp_7_day.json'',
                     ''geospace/geosapce_pred_est_kp_7_day.json''])]
     ''secondary'' world0 =
   (Inr Map.empty,
    \<lparr>sent = [(GET, NOAA_BASE_URL @ ''geospace/geospce_pred_est_kp_7_day.json''),
             (GET, NOAA_BASE_URL @ ''geospace/geosapce_pred_est_kp_7_day.json''),
             (GET, NOAA_BASE_URL @ ''geospace/geosapce_pred_est_kp_7_day.json'')],
     snapshots = Map.empty,
     logged = [Error_fetching ''geomagnetic_kp_7d'' JSONDecodeError]\<rparr>) \<and>
   fetch_noaa_data steady_mirror_unwritable
     [(''geomagnetic_kp_7d'',
         Alternates [''geospace/geospce_pred_est_kp_7_day.json'',
                     ''geospace/geosapce_pred_est_kp_7_day.json''])]
     ''secondary'' world0 =
   (Inl OSError,
    \<lparr>sent = [(GET, NOAA_BASE_URL @ ''geospace/geospce_pred_est_kp_7_day.json''),
             (GET, NOAA_BASE_URL @ ''geospace/geosapce_pred_est_kp_7_day.json''),
             (GET, NOAA_BASE_URL @ ''geospace/geosapce_pred_est_kp_7_day.json'')],
     snapshots = Map.empty,
     logged = []\<rparr>)"
  by (simp add: fetch_noaa_data_def fetch_key_def resolve_url_def fetch_url_def caught_def
      raise_for_status_def response_json_def logging_def Let_def
      session_get_def session_retry_def max_redirects_def get_redirect_target_def
      eval_nat_numeral
      flaky_mirror_def html_mirror_def steady_mirror_unwritable_def steady_mirror_def
      example_env_def scripted_def world0_def NOAA_BASE_URL_def)

subsection \<open>The three strategies of the resolver\<close>

lemma py_gt_step:
  "scalar a \<Longrightarrow> scalar b \<Longrightarrow> scalar c \<Longrightarrow> py_gt c b = Some True \<Longrightarrow>
   py_gt a b \<noteq> Some True \<Longrightarrow> py_gt a c \<noteq> Some True"
  by (cases a; cases b; cases c) (auto simp add: of_bool_def split: if_splits)

lemma py_gt_irrefl: "scalar a \<Longrightarrow> py_gt a a \<noteq> Some True"
  by (cases a) auto

lemma max_loop_greatest:
  assumes "max_loop best bk fs = Inr m"
    and "subscript best ''timestamp'' = Inr bk" and "scalar bk"
    and "\<forall>g \<in> set fs. scalar_timestamp g"
    and "\<forall>g \<in> S. scalar_timestamp g \<and> \<not> newer g best"
  shows "m \<in> insert best (set fs) \<and> (\<forall>g \<in> S \<union> insert best (set fs). \<not> newer g m)"
  using assms
proof (induction fs arbitrary: best bk S)
  case Nil
  then show ?case by (auto simp add: newer_def dest: py_gt_irrefl)
next
  case (Cons f fs)
  from Cons.prems(4) obtain k where k: "subscript f ''timestamp'' = Inr k" "scalar k"
    by (auto simp add: scalar_timestamp_def split: sum.splits)
  from Cons.prems(1) k obtain b where b: "py_gt k bk = Some b"
    by (cases "py_gt k bk") auto
  show ?case
  proof (cases b)
    case True
    with Cons.prems(1) k b have m: "max_loop f k fs = Inr m" by simp
    have "\<forall>g \<in> insert best S. scalar_timestamp g \<and> \<not> newer g f"
    proof
      fix g assume g: "g \<in> insert best S"
      then have sg: "scalar_timestamp g"
        using Cons.prems(2,3,5) by (auto simp add: scalar_timestamp_def)
      then obtain a where a: "subscript g ''timestamp'' = Inr a" "scalar a"
        by (auto simp add: scalar_timestamp_def split: sum.splits)
      have "py_gt a bk \<noteq> Some True"
        using g a Cons.prems(2,3,5) by (auto simp add: newer_def dest: py_gt_irrefl)
      with py_gt_step [OF a(2) Cons.prems(3) k(2)] b True have "py_gt a k \<noteq> Some True"
        by simp
      with a k sg show "scalar_timestamp g \<and> \<not> newer g f" by (simp add: newer_def)
    qed
    from Cons.IH [OF m k(1) k(2) _ this] Cons.prems(4) show ?thesis by auto
  next
    case False
    with Cons.prems(1) k b have m: "max_loop best bk fs = Inr m" by simp
    have "\<forall>g \<in> insert f S. scalar_timestamp g \<and> \<not> newer g best"
      using Cons.prems(2,4,5) k b False by (auto simp add: newer_def)
    from Cons.IH [OF m Cons.prems(2) Cons.prems(3) _ this] Cons.prems(4) show ?thesis by auto
  qed
qed

lemma max_by_timestamp_greatest:
  assumes "max_by_timestamp fs = Inr m" and "\<forall>g \<in> set fs. scalar_timestamp g"
  shows "m \<in> set fs \<and> (\<forall>g \<in> set fs. \<not> newer g m)"
proof (cases fs)
  case Nil
  with assms show ?thesis by (simp add: max_by_timestamp_def)
next
  case (Cons f rest)
  with assms(2) obtain k where k: "subscript f ''timestamp'' = Inr k" "scalar k"
    by (auto simp add: scalar_timestamp_def split: sum.splits)
  with assms(1) Cons have "max_loop f k rest = Inr m" by (simp add: max_by_timestamp_def)
  from max_loop_greatest [OF this k(1) k(2), of "{}"] assms(2) Cons show ?thesis by auto
qed

lemma max_loop_member: "max_loop best bk fs = Inr m \<Longrightarrow> m \<in> insert best (set fs)"
  by (induction fs arbitrary: best bk) (auto split: sum.splits option.splits bool.splits)

lemma max_by_timestamp_member: "max_by_timestamp fs = Inr m \<Longrightarrow> m \<in> set fs"
  by (cases fs) (auto simp add: max_by_timestamp_def split: sum.splits dest: max_loop_member)

lemma max_by_timestamp_strings:
  "max_by_timestamp (map (\<lambda>x. JStr (g x)) xs) = Inl (if xs = [] then ValueError else TypeError)"
  by (cases xs) (simp_all add: max_by_timestamp_def)

lemma latest_from_index_listed:
  assumes "latest_from_index e \<lparr>status_code = st, body = tx\<rparr> = Inr F1"
  shows "\<exists>f. max_by_timestamp (listed_files e tx) = Inr f \<and> subscript f ''filename'' = Inr F1"
proof -
  from assms obtain doc where doc: "json_loads e tx = Inr doc"
    by (auto simp add: latest_from_index_def response_json_def split: sum.splits)
  with assms obtain kvs where kvs: "doc = JObj kvs"
    by (cases doc) (auto simp add: latest_from_index_def response_json_def)
  show ?thesis
  proof (cases "map_of kvs ''files''")
    case None
    with assms doc kvs show ?thesis
      by (simp add: latest_from_index_def response_json_def max_by_timestamp_def)
  next
    case (Some files)
    with assms doc kvs show ?thesis
      by (cases files)
         (auto simp add: latest_from_index_def response_json_def listed_files_def
            max_by_timestamp_strings
            split: sum.splits if_splits)
  qed
qed

text \<open>
  Claim C2. For a key of \<^verbatim>\<open>TERTIARY_ENDPOINTS\<close>: when the GET of \<^verbatim>\<open>index.json\<close> is answered
  200 and the index yields the file name \<^verbatim>\<open>F1\<close>, the resolver returns the URL of \<^verbatim>\<open>F1\<close>
  after that single request, so whatever \<^verbatim>\<open>latest.json\<close> would answer is never asked
  for. \<^verbatim>\<open>F1\<close> is the file name of an entry of the index, and when the timestamps of the
  index are numbers or strings no entry has a greater timestamp. The alias probe
  decides only when the index lookup has failed, and the manual scan only when both
  have; when all three fail the resolver returns \<^verbatim>\<open>None\<close>.
\<close>

theorem resolver_strategies_in_priority_order:
  assumes "map_of TERTIARY_ENDPOINTS directory_key = Some ep"
    and "directory_path = format_endpoint e ep"
  shows
   "(server e (sent w) (GET, base_url @ directory_path @ ''index.json'') = Answer 200 tx \<and>
     latest_from_index e \<lparr>status_code = 200, body = tx\<rparr> = Inr F1 \<longrightarrow>
       get_latest_file_url e base_url directory_key w =
         (Inr (Some (base_url @ directory_path @ py_format e F1)),
          w\<lparr>sent := sent w @ [(GET, base_url @ directory_path @ ''index.json'')],
            logged := logged w @ [Found_latest_from_index (py_format e F1)]\<rparr>) \<and>
       (\<exists>f \<in> set (listed_files e tx).
          subscript f ''filename'' = Inr F1 \<and>
          ((\<forall>g \<in> set (listed_files e tx). scalar_timestamp g) \<longrightarrow>
           (\<forall>g \<in> set (listed_files e tx). \<not> newer g f)))) \<and>
    (index_lookup e base_url directory_path w = (None, w1) \<and>
     alias_probe e base_url directory_path w1 = (Some url, w2) \<longrightarrow>
       get_latest_file_url e base_url directory_key w = (Inr (Some url), w2)) \<and>
    (index_lookup e base_url directory_path w = (None, w1) \<and>
     alias_probe e base_url directory_path w1 = (None, w2) \<and>
     manual_scan e base_url directory_path directory_key w2 = (Some url, w3) \<longrightarrow>
       get_latest_file_url e base_url directory_key w = (Inr (Some url), w3)) \<and>
    (index_lookup e base_url directory_path w = (None, w1) \<and>
     alias_probe e base_url directory_path w1 = (None, w2) \<and>
     manual_scan e base_url directory_path directory_key w2 = (None, w3) \<longrightarrow>
       get_latest_file_url e base_url directory_key w =
         (Inr None, logging (No_latest_file directory_key) w3))"
proof (intro conjI impI)
  assume a: "server e (sent w) (GET, base_url @ directory_path @ ''index.json'') = Answer 200 tx \<and>
     latest_from_index e \<lparr>status_code = 200, body = tx\<rparr> = Inr F1"
  then have "index_lookup e base_url directory_path w =
      (Some (base_url @ directory_path @ py_format e F1),
          w\<lparr>sent := sent w @ [(GET, base_url @ directory_path @ ''index.json'')],
            logged := logged w @ [Found_latest_from_index (py_format e F1)]\<rparr>)"
    by (simp add: index_lookup_def requests_get_final logging_def Let_def)
  then show "get_latest_file_url e base_url directory_key w =
         (Inr (Some (base_url @ directory_path @ py_format e F1)),
          w\<lparr>sent := sent w @ [(GET, base_url @ directory_path @ ''index.json'')],
            logged := logged w @ [Found_latest_from_index (py_format e F1)]\<rparr>)"
    using assms by (simp add: get_latest_file_url_def Let_def)
  from a latest_from_index_listed [of e 200 tx F1]
  obtain f where f: "max_by_timestamp (listed_files e tx) = Inr f"
    "subscript f ''filename'' = Inr F1" by blast
  from f(1) have "f \<in> set (listed_files e tx)" by (rule max_by_timestamp_member)
  moreover have "(\<forall>g \<in> set (listed_files e tx). scalar_timestamp g) \<longrightarrow>
           (\<forall>g \<in> set (listed_files e tx). \<not> newer g f)"
    using max_by_timestamp_greatest [OF f(1)] by blast
  ultimately show "\<exists>f \<in> set (listed_files e tx).
          subscript f ''filename'' = Inr F1 \<and>
          ((\<forall>g \<in> set (listed_files e tx). scalar_timestamp g) \<longrightarrow>
           (\<forall>g \<in> set (listed_files e tx). \<not> newer g f))"
    using f(2) by blast
next
  assume "index_lookup e base_url directory_path w = (None, w1) \<and>
     alias_probe e base_url directory_path w1 = (Some url, w2)"
  then show "get_latest_file_url e base_url directory_key w = (Inr (Some url), w2)"
    using assms by (simp add: get_latest_file_url_def Let_def)
next
  assume "index_lookup e base_url directory_path w = (None, w1) \<and>
     alias_probe e base_url directory_path w1 = (None, w2) \<and>
     manual_scan e base_url directory_path directory_key w2 = (Some url, w3)"
  then show "get_latest_file_url e base_url directory_key w = (Inr (Some url), w3)"
    using assms by (simp add: get_latest_file_url_def Let_def)
next
  assume "index_lookup e base_url directory_path w = (None, w1) \<and>
     alias_probe e base_url directory_path w1 = (None, w2) \<and>
     manual_scan e base_url directory_path directory_key w2 = (None, w3)"
  then show "get_latest_file_url e base_url directory_key w =
         (Inr None, logging (No_latest_file directory_key) w3)"
    using assms by (simp add: get_latest_file_url_def Let_def)
qed

theorem resolver_strategies_witness:
  "get_latest_file_url index_and_alias NOAA_BASE_URL ''electric_field_us_canada'' world0 =
     (Inr (Some (NOAA_BASE_URL @ ''lists/rgeojson/US-Canada-1D/'' @
                 ''20240102T000000-15-Efield-x.json'')),
      \<lparr>sent = [(GET, NOAA_BASE_URL @ ''lists/rgeojson/US-Canada-1D/index.json'')],
       snapshots = Map.empty,
       logged = [Found_latest_from_index ''20240102T000000-15-Efield-x.json'']\<rparr>) \<and>
   server index_and_alias
     [(GET, NOAA_BASE_URL @ ''lists/rgeojson/US-Canada-1D/index.json'')]
     (HEAD, NOAA_BASE_URL @ ''lists/rgeojson/US-Canada-1D/latest.json'') = Answer 200 ''index'' \<and>
   get_latest_file_url alias_only NOAA_BASE_URL ''electric_field_us_canada'' world0 =
     (Inr (Some (NOAA_BASE_URL @ ''lists/rgeojson/US-Canada-1D/'' @ ''latest.json'')),
      \<lparr>sent = [(GET, NOAA_BASE_URL @ ''lists/rgeojson/US-Canada-1D/index.json''),
               (HEAD, NOAA_BASE_URL @ ''lists/rgeojson/US-Canada-1D/latest.json'')],
       snapshots = Map.empty,
       logged = [Found_latest_alias
                   (NOAA_BASE_URL @ ''lists/rgeojson/US-Canada-1D/'' @ ''latest.json'')]\<rparr>) \<and>
   get_latest_file_url listing_only NOAA_BASE_URL ''electric_field_us_canada'' world0 =
     (Inr (Some (NOAA_BASE_URL @ ''lists/rgeojson/US-Canada-1D/'' @
                 ''20240102T000000-15-Efield-x.json'')),
      \<lparr>sent = [(GET, NOAA_BASE_URL @ ''lists/rgeojson/US-Canada-1D/index.json''),
               (HEAD, NOAA_BASE_URL @ ''lists/rgeojson/US-Canada-1D/latest.json''),
               (GET, NOAA_BASE_URL @ ''lists/rgeojson/US-Canada-1D/'')],
       snapshots = Map.empty,
       logged = [Attempting_manual_discovery ''electric_field_us_canada'',
                 Manually_discovered ''20240102T000000-15-Efield-x.json'']\<rparr>)"
proof -
  let ?k = "''electric_field_us_canada''"
  let ?d = "''lists/rgeojson/US-Canada-1D/''"
  let ?f2 = "''20240102T000000-15-Efield-x.json''"
  let ?i = "(GET, NOAA_BASE_URL @ ?d @ ''index.json'')"
  let ?h = "(HEAD, NOAA_BASE_URL @ ?d @ ''latest.json'')"
  let ?l = "(GET, NOAA_BASE_URL @ ?d)"
  have k: "map_of TERTIARY_ENDPOINTS ?k = Some (Path ?d)"
    by (simp add: TERTIARY_ENDPOINTS_def)
  have d: "?d = format_endpoint e (Path ?d)" for e
    by (simp add: format_endpoint_def)
  note t = resolver_strategies_in_priority_order [OF k d]
  have a1: "server index_and_alias (sent world0) ?i = Answer 200 ''index''"
    by (simp add: index_and_alias_def example_env_def scripted_def)
  have a2: "latest_from_index index_and_alias \<lparr>status_code = 200, body = ''index''\<rparr> =
              Inr (JStr ?f2)"
    by (simp add: latest_from_index_def response_json_def max_by_timestamp_def
        index_and_alias_def example_env_def efield_index_def)
  have first: "get_latest_file_url index_and_alias NOAA_BASE_URL ?k world0 =
       (Inr (Some (NOAA_BASE_URL @ ?d @ ?f2)),
        \<lparr>sent = [?i], snapshots = Map.empty, logged = [Found_latest_from_index ?f2]\<rparr>)"
    using t [of index_and_alias world0 NOAA_BASE_URL "''index''" "JStr ?f2"] a1 a2
    by (simp add: py_format_def world0_def)
  have b1: "index_lookup alias_only NOAA_BASE_URL ?d world0 = (None, world0\<lparr>sent := [?i]\<rparr>)"
    by (simp add: index_lookup_def requests_get_def max_redirects_def
        get_redirect_target_def eval_nat_numeral Let_def
        alias_only_def example_env_def scripted_def world0_def)
  have b2: "alias_probe alias_only NOAA_BASE_URL ?d (world0\<lparr>sent := [?i]\<rparr>) =
       (Some (NOAA_BASE_URL @ ?d @ ''latest.json''),
        \<lparr>sent = [?i, ?h], snapshots = Map.empty,
         logged = [Found_latest_alias (NOAA_BASE_URL @ ?d @ ''latest.json'')]\<rparr>)"
    by (simp add: alias_probe_def requests_head_def Let_def logging_def
        alias_only_def example_env_def scripted_def world0_def NOAA_BASE_URL_def)
  have second: "get_latest_file_url alias_only NOAA_BASE_URL ?k world0 =
       (Inr (Some (NOAA_BASE_URL @ ?d @ ''latest.json'')),
        \<lparr>sent = [?i, ?h], snapshots = Map.empty,
         logged = [Found_latest_alias (NOAA_BASE_URL @ ?d @ ''latest.json'')]\<rparr>)"
    using t [of alias_only world0 NOAA_BASE_URL _ _ "world0\<lparr>sent := [?i]\<rparr>"] b1 b2
    by simp
  have c1: "index_lookup listing_only NOAA_BASE_URL ?d world0 = (None, world0\<lparr>sent := [?i]\<rparr>)"
    by (simp add: index_lookup_def requests_get_def max_redirects_def
        get_redirect_target_def eval_nat_numeral Let_def
        listing_only_def example_env_def scripted_def world0_def NOAA_BASE_URL_def)
  have c2: "alias_probe listing_only NOAA_BASE_URL ?d (world0\<lparr>sent := [?i]\<rparr>) =
       (None, world0\<lparr>sent := [?i, ?h]\<rparr>)"
    by (simp add: alias_probe_def requests_head_def Let_def logging_def
        listing_only_def example_env_def scripted_def world0_def NOAA_BASE_URL_def)
  have c3: "manual_scan listing_only NOAA_BASE_URL ?d ?k (world0\<lparr>sent := [?i, ?h]\<rparr>) =
       (Some (NOAA_BASE_URL @ ?d @ ?f2),
        \<lparr>sent = [?i, ?h, ?l], snapshots = Map.empty,
         logged = [Attempting_manual_discovery ?k, Manually_discovered ?f2]\<rparr>)"
    by (simp add: manual_scan_def requests_get_def max_redirects_def get_redirect_target_def
        eval_nat_numeral Let_def logging_def sorted_reverse_def
        listing_only_def example_env_def scripted_def world0_def NOAA_BASE_URL_def)
  have third: "get_latest_file_url listing_only NOAA_BASE_URL ?k world0 =
       (Inr (Some (NOAA_BASE_URL @ ?d @ ?f2)),
        \<lparr>sent = [?i, ?h, ?l], snapshots = Map.empty,
         logged = [Attempting_manual_discovery ?k, Manually_discovered ?f2]\<rparr>)"
    using t [of listing_only world0 NOAA_BASE_URL _ _ "world0\<lparr>sent := [?i]\<rparr>" _
               "world0\<lparr>sent := [?i, ?h]\<rparr>"] c1 c2 c3
    by simp
  have probe: "server index_and_alias [?i] ?h = Answer 200 ''index''"
    by (simp add: index_and_alias_def example_env_def scripted_def)
  from first second third probe show ?thesis by simp
qed

subsection \<open>The retry policy and the alias probe\<close>

text \<open>
  Claim C3, as amended. The retry policy belongs to the session that \<^verbatim>\<open>fetch_noaa_data\<close>
  builds; the resolver calls \<^verbatim>\<open>requests.head\<close>, which does not go through that session.
  The alias probe sends exactly one HEAD request whatever the answer; an answer whose
  status is not 200, a retryable one included, makes the probe fail at once. A request
  through the session is repeated while the status is in the force list: 5 retries
  after the first attempt, 6 requests in all, then \<^verbatim>\<open>RetryError\<close>.
\<close>

theorem alias_probe_is_not_retried:
  "sent (snd (alias_probe e base_url directory_path w)) =
     sent w @ [(HEAD, base_url @ directory_path @ ''latest.json'')] \<and>
   (\<forall>st txt.
      server e (sent w) (HEAD, base_url @ directory_path @ ''latest.json'') = Answer st txt \<and>
      st \<noteq> 200 \<longrightarrow>
      alias_probe e base_url directory_path w =
        (None, w\<lparr>sent := sent w @ [(HEAD, base_url @ directory_path @ ''latest.json'')]\<rparr>)) \<and>
   ((\<forall>hist. \<exists>st txt. server e hist (GET, url) = Answer st txt \<and>
                       st \<in> set (status_forcelist session_retry)) \<longrightarrow>
      session_get e url w =
        (Inl RetryError, w\<lparr>sent := sent w @ replicate 6 (GET, url)\<rparr>))"
proof (intro conjI allI impI)
  show "sent (snd (alias_probe e base_url directory_path w)) =
     sent w @ [(HEAD, base_url @ directory_path @ ''latest.json'')]"
    using requests_head_sent [of e "base_url @ directory_path @ ''latest.json''" w]
    by (cases "requests_head e (base_url @ directory_path @ ''latest.json'') w")
       (auto simp add: alias_probe_def logging_def Let_def split: sum.splits)
next
  fix st tx
  assume "server e (sent w) (HEAD, base_url @ directory_path @ ''latest.json'') = Answer st tx \<and>
      st \<noteq> 200"
  then show "alias_probe e base_url directory_path w =
        (None, w\<lparr>sent := sent w @ [(HEAD, base_url @ directory_path @ ''latest.json'')]\<rparr>)"
    by (simp add: alias_probe_def requests_head_final)
next
  assume "\<forall>hist. \<exists>st txt. server e hist (GET, url) = Answer st txt \<and>
                       st \<in> set (status_forcelist session_retry)"
  from send_exhausted [OF this, of 5 max_redirects w]
  show "session_get e url w = (Inl RetryError, w\<lparr>sent := sent w @ replicate 6 (GET, url)\<rparr>)"
    by (simp add: session_get_def session_retry_def eval_nat_numeral)
qed

theorem alias_probe_is_not_retried_witness:
  "alias_probe always_503 NOAA_BASE_URL ''lists/rgeojson/US-Canada-1D/'' world0 =
     (None, world0\<lparr>sent := [(HEAD, NOAA_BASE_URL @ ''lists/rgeojson/US-Canada-1D/latest.json'')]\<rparr>) \<and>
   session_get always_503 (NOAA_BASE_URL @ ''ace/epam/ace_epam_5m.json'') world0 =
     (Inl RetryError,
      world0\<lparr>sent := replicate 6 (GET, NOAA_BASE_URL @ ''ace/epam/ace_epam_5m.json'')\<rparr>)"
proof -
  have h1: "server always_503 (sent world0)
              (HEAD, NOAA_BASE_URL @ ''lists/rgeojson/US-Canada-1D/'' @ ''latest.json'') =
            Answer 503 [] \<and> (503::nat) \<noteq> 200"
    by (simp add: always_503_def example_env_def scripted_def)
  have h2: "\<forall>hist. \<exists>st txt.
              server always_503 hist (GET, NOAA_BASE_URL @ ''ace/epam/ace_epam_5m.json'') =
                Answer st txt \<and> st \<in> set (status_forcelist session_retry)"
    by (simp add: always_503_def example_env_def scripted_def session_retry_def)
  from alias_probe_is_not_retried
    [of always_503 NOAA_BASE_URL "''lists/rgeojson/US-Canada-1D/''" world0
        "NOAA_BASE_URL @ ''ace/epam/ace_epam_5m.json''"] h1 h2
  show ?thesis by (simp add: world0_def)
qed

text \<open>
  Claim C3, as stated, fails: every request is answered 503. The resolver sends one
  HEAD to \<^verbatim>\<open>latest.json\<close> between its two GETs, and no second one; the session sends its
  GET six times.
\<close>

theorem alias_probe_retry_counterexample:
  "sent (snd (get_latest_file_url always_503 NOAA_BASE_URL ''electric_field_us_canada'' world0)) =
     [(GET, NOAA_BASE_URL @ ''lists/rgeojson/US-Canada-1D/index.json''),
      (HEAD, NOAA_BASE_URL @ ''lists/rgeojson/US-Canada-1D/latest.json''),
      (GET, NOAA_BASE_URL @ ''lists/rgeojson/US-Canada-1D/'')] \<and>
   server always_503
     [(GET, NOAA_BASE_URL @ ''lists/rgeojson/US-Canada-1D/index.json'')]
     (HEAD, NOAA_BASE_URL @ ''lists/rgeojson/US-Canada-1D/latest.json'') = Answer 503 [] \<and>
   sent (snd (session_get always_503 (NOAA_BASE_URL @ ''ace/epam/ace_epam_5m.json'') world0)) =
     [(GET, NOAA_BASE_URL @ ''ace/epam/ace_epam_5m.json''),
      (GET, NOAA_BASE_URL @ ''ace/epam/ace_epam_5m.json''),
      (GET, NOAA_BASE_URL @ ''ace/epam/ace_epam_5m.json''),
      (GET, NOAA_BASE_URL @ ''ace/epam/ace_epam_5m.json''),
      (GET, NOAA_BASE_URL @ ''ace/epam/ace_epam_5m.json''),
      (GET, NOAA_BASE_URL @ ''ace/epam/ace_epam_5m.json'')]"
  by (simp add: get_latest_file_url_def TERTIARY_ENDPOINTS_def format_endpoint_def
      index_lookup_def alias_probe_def manual_scan_def requests_get_def requests_head_def
      max_redirects_def get_redirect_target_def logging_def Let_def
      always_503_def example_env_def scripted_def world0_def session_get_def session_retry_def
      eval_nat_numeral)

subsection \<open>A single path that answers 404\<close>

text \<open>
  Claim C7. The key's target is a single path (not a directory) and the server answers
  its GET with 404. 404 is not in the force list of the session, so the adapter hands
  the answer back after this one request: no retry is spent. \<^verbatim>\<open>raise_for_status\<close> raises
  \<^verbatim>\<open>HTTPError\<close>, which the \<^verbatim>\<open>except\<close> of this key's \<^verbatim>\<open>try\<close> catches and logs: the mapping
  is returned as it was, no snapshot is written (only the requests sent and the log
  change), and the loop goes on with the keys that follow. No later key touches the
  entry of this one, so the mapping the run returns holds for it what it held before.
\<close>

theorem not_found_fails_without_retry:
  assumes "\<not> endswith p ''/''"
    and "server e (sent w) (GET, NOAA_BASE_URL @ p) = Answer 404 txt"
  shows "fetch_key e category key (Path p) fetched_data w =
           (Inr fetched_data,
            w\<lparr>sent := sent w @ [(GET, NOAA_BASE_URL @ p)],
              logged := logged w @ [Error_fetching key (HTTPError 404)]\<rparr>) \<and>
         fetch_loop e category ((key, Path p) # rest) fetched_data w =
           fetch_loop e category rest fetched_data
             (w\<lparr>sent := sent w @ [(GET, NOAA_BASE_URL @ p)],
                logged := logged w @ [Error_fetching key (HTTPError 404)]\<rparr>) \<and>
         (\<forall>fd'. key \<notin> fst ` set rest \<and>
                fst (fetch_loop e category ((key, Path p) # rest) fetched_data w) = Inr fd' \<longrightarrow>
                fd' key = fetched_data key)"
proof -
  have "session_get e (NOAA_BASE_URL @ p) w =
          (Inr \<lparr>status_code = 404, body = txt\<rparr>, w\<lparr>sent := sent w @ [(GET, NOAA_BASE_URL @ p)]\<rparr>)"
    using assms(2) not_found_not_retried by (rule session_get_final)
  then have "fetch_key e category key (Path p) fetched_data w =
           (Inr fetched_data,
            w\<lparr>sent := sent w @ [(GET, NOAA_BASE_URL @ p)],
              logged := logged w @ [Error_fetching key (HTTPError 404)]\<rparr>)"
    using assms(1)
    by (simp add: fetch_key_def resolve_url_def fetch_url_def raise_for_status_def caught_def
        logging_def)
  then show ?thesis using fetch_loop_after by fastforce
qed

theorem not_found_witness:
  "\<not> endswith ''goes/primary/xray-flares-latest.json'' ''/'' \<and>
   fetch_noaa_data
     (example_env Connection_failed [((GET, NOAA_BASE_URL @ ''goes/primary/xray-flares-latest.json''),
                    [Answer 404 ''Not Found''])] [] [])
     [(''xray_flares'', Path ''goes/primary/xray-flares-latest.json'')] ''primary'' world0 =
   (Inr Map.empty,
    \<lparr>sent = [(GET, NOAA_BASE_URL @ ''goes/primary/xray-flares-latest.json'')],
     snapshots = Map.empty,
     logged = [Error_fetching ''xray_flares'' (HTTPError 404)]\<rparr>)"
proof -
  let ?p = "''goes/primary/xray-flares-latest.json''"
  let ?e = "example_env Connection_failed [((GET, NOAA_BASE_URL @ ?p), [Answer 404 ''Not Found''])] [] []"
  have h1: "\<not> endswith ?p ''/''"
    by (simp add: endswith_def)
  have h2: "server ?e (sent world0) (GET, NOAA_BASE_URL @ ?p) = Answer 404 ''Not Found''"
    by (simp add: example_env_def scripted_def world0_def)
  from not_found_fails_without_retry [OF h1 h2, of "''primary''" "''xray_flares''" Map.empty "[]"]
    h1
  show ?thesis
    by (simp add: fetch_noaa_data_def world0_def)
qed

subsection \<open>A body that is not JSON\<close>

text \<open>
  Claim C8, as amended. The key is resolved to a URL, the request for it comes back
  with a status that \<^verbatim>\<open>raise_for_status\<close> accepts, and \<^verbatim>\<open>response.json()\<close> raises
  \<^verbatim>\<open>requests.exceptions.JSONDecodeError\<close> on the body. That is a \<^verbatim>\<open>RequestException\<close>,
  raised before \<^verbatim>\<open>fetched_data[key]\<close> is assigned: the step logs the error, returns the
  mapping unchanged, leaves the snapshot files as they were, and the loop goes on with
  the keys that follow; the mapping the run returns holds for this key what it held
  before the step.
\<close>

theorem unparsable_body_is_a_fetch_failure:
  assumes "resolve_url e key endpoint w0 = (Inr (Some url), w)"
    and "session_get e url w = (Inr r, w')"
    and "raise_for_status r = Inr ()"
    and "json_loads e (body r) = Inl JSONDecodeError"
  shows "fetch_key e category key endpoint fetched_data w0 =
           (Inr fetched_data, logging (Error_fetching key JSONDecodeError) w') \<and>
         snapshots w' = snapshots w \<and>
         fetch_loop e category ((key, endpoint) # rest) fetched_data w0 =
           fetch_loop e category rest fetched_data (logging (Error_fetching key JSONDecodeError) w') \<and>
         (\<forall>fd'. key \<notin> fst ` set rest \<and>
                fst (fetch_loop e category ((key, endpoint) # rest) fetched_data w0) = Inr fd' \<longrightarrow>
                fd' key = fetched_data key)"
proof -
  have "fetch_url e category key url fetched_data w =
          (Inr fetched_data, logging (Error_fetching key JSONDecodeError) w')"
    using assms(2-4) by (simp add: fetch_url_def response_json_def caught_def)
  with assms(1) have "fetch_key e category key endpoint fetched_data w0 =
           (Inr fetched_data, logging (Error_fetching key JSONDecodeError) w')"
    by (simp add: fetch_key_def)
  moreover have "snapshots w' = snapshots w"
    using session_get_unchanged [of e url w] assms(2) by simp
  ultimately show ?thesis using fetch_loop_after by fastforce
qed

theorem unparsable_body_witness:
  "fetch_noaa_data html_server
     [(''ace_epam_5m'', Path ''ace/epam/ace_epam_5m.json''),
      (''ace_magnetic_field_1h'', Path ''ace/mag/ace_mag_1h.json'')]
     ''tertiary'' world0 =
   (Inr [''ace_magnetic_field_1h'' \<mapsto> JArr []],
    \<lparr>sent = [(GET, NOAA_BASE_URL @ ''ace/epam/ace_epam_5m.json''),
             (GET, NOAA_BASE_URL @ ''ace/mag/ace_mag_1h.json'')],
     snapshots = [''noaa_data/tertiary_ace_magnetic_field_1h_20250220120000.json'' \<mapsto> JArr []],
     logged = [Error_fetching ''ace_epam_5m'' JSONDecodeError,
               Successfully_fetched ''ace_magnetic_field_1h'' ''tertiary'']\<rparr>)"
proof -
  let ?p = "''ace/epam/ace_epam_5m.json''"
  let ?w' = "world0\<lparr>sent := [(GET, NOAA_BASE_URL @ ?p)]\<rparr>"
  let ?r = "\<lparr>status_code = 200, body = ''<html>maintenance</html>''\<rparr>"
  have h1: "resolve_url html_server ''ace_epam_5m'' (Path ?p) world0 =
              (Inr (Some (NOAA_BASE_URL @ ?p)), world0)"
    by (simp add: resolve_url_def endswith_def)
  have h2: "session_get html_server (NOAA_BASE_URL @ ?p) world0 = (Inr ?r, ?w')"
    by (simp add: session_get_def session_retry_def max_redirects_def get_redirect_target_def
        eval_nat_numeral
        html_server_def example_env_def scripted_def world0_def NOAA_BASE_URL_def Let_def)
  have h3: "raise_for_status ?r = Inr ()"
    by (simp add: raise_for_status_def)
  have h4: "json_loads html_server (body ?r) = Inl JSONDecodeError"
    by (simp add: html_server_def example_env_def)
  from unparsable_body_is_a_fetch_failure [OF h1 h2 h3 h4, of "''tertiary''" Map.empty
      "[(''ace_magnetic_field_1h'', Path ''ace/mag/ace_mag_1h.json'')]"]
  show ?thesis
    by (simp add: fetch_noaa_data_def fetch_key_def resolve_url_def fetch_url_def caught_def
      raise_for_status_def response_json_def logging_def Let_def
      session_get_def session_retry_def max_redirects_def get_redirect_target_def
      eval_nat_numeral endswith_def
      DATA_DIR_def path_join_def
      html_server_def example_env_def scripted_def world0_def NOAA_BASE_URL_def)
qed

text \<open>
  Claim C8, as stated, fails when the parser raises an exception that is not a
  \<^verbatim>\<open>RequestException\<close>. The server answers 200 with an array nested 100000 deep:
  \<^verbatim>\<open>response.json()\<close> raises \<^verbatim>\<open>RecursionError\<close>, which \<^verbatim>\<open>except RequestException\<close> does
  not catch, and the run ends at the first key with nothing logged and the second key
  never requested. Under a requests older than 2.27 the same happens for a body that
  is not JSON, with \<^verbatim>\<open>ValueError\<close>.
\<close>

theorem deeply_nested_body_counterexample:
  "session_get deep_server (NOAA_BASE_URL @ ''ace/epam/ace_epam_5m.json'') world0 =
     (Inr \<lparr>status_code = 200, body = deep_body\<rparr>,
      world0\<lparr>sent := [(GET, NOAA_BASE_URL @ ''ace/epam/ace_epam_5m.json'')]\<rparr>) \<and>
   json_loads deep_server deep_body = Inl RecursionError \<and>
   fetch_noaa_data deep_server
     [(''ace_epam_5m'', Path ''ace/epam/ace_epam_5m.json''),
      (''ace_magnetic_field_1h'', Path ''ace/mag/ace_mag_1h.json'')]
     ''tertiary'' world0 =
   (Inl RecursionError,
    \<lparr>sent = [(GET, NOAA_BASE_URL @ ''ace/epam/ace_epam_5m.json'')],
     snapshots = Map.empty, logged = []\<rparr>) \<and>
   fetch_noaa_data html_server_old_requests
     [(''ace_epam_5m'', Path ''ace/epam/ace_epam_5m.json''),
      (''ace_magnetic_field_1h'', Path ''ace/mag/ace_mag_1h.json'')]
     ''tertiary'' world0 =
   (Inl ValueError,
    \<lparr>sent = [(GET, NOAA_BASE_URL @ ''ace/epam/ace_epam_5m.json'')],
     snapshots = Map.empty, logged = []\<rparr>)"
  by (simp add: fetch_noaa_data_def fetch_key_def resolve_url_def fetch_url_def caught_def
      raise_for_status_def response_json_def logging_def Let_def
      session_get_def session_retry_def max_redirects_def get_redirect_target_def
      eval_nat_numeral endswith_def
      deep_server_def html_server_old_requests_def example_env_def scripted_def world0_def)

text \<open>
  The other side of the same handler: when \<^verbatim>\<open>response.json()\<close> raises an exception
  that is not a \<^verbatim>\<open>RequestException\<close>, the exception leaves the step and the run, and
  the keys that follow are not fetched.
\<close>

lemma parser_exception_leaves_the_run:
  assumes "resolve_url e key endpoint w0 = (Inr (Some url), w)"
    and "session_get e url w = (Inr r, w')"
    and "raise_for_status r = Inr ()"
    and "json_loads e (body r) = Inl x"
    and "\<not> is_RequestException x"
  shows "fetch_key e category key endpoint fetched_data w0 = (Inl x, w')"
    and "fetch_loop e category ((key, endpoint) # rest) fetched_data w0 = (Inl x, w')"
proof -
  have "fetch_url e category key url fetched_data w = (Inl x, w')"
    using assms(2-5) by (simp add: fetch_url_def response_json_def caught_def)
  with assms(1) show "fetch_key e category key endpoint fetched_data w0 = (Inl x, w')"
    by (simp add: fetch_key_def)
  then show "fetch_loop e category ((key, endpoint) # rest) fetched_data w0 = (Inl x, w')"
    by simp
qed

subsection \<open>A snapshot that cannot be written\<close>

text \<open>
  \<^verbatim>\<open>open\<close> and \<^verbatim>\<open>json.dump\<close> stand inside the \<^verbatim>\<open>try\<close> block, whose \<^verbatim>\<open>except\<close> catches only
  request exceptions: an \<^verbatim>\<open>OSError\<close> of the write leaves the function. The key had been
  stored in the mapping, which is lost with the run; nothing is logged and the next key
  is never requested.
\<close>

lemma failed_write_ends_the_run:
  "fetch_noaa_data unwritable_cache
     [(''ace_epam_5m'', Path ''ace/epam/ace_epam_5m.json''),
      (''ace_magnetic_field_1h'', Path ''ace/mag/ace_mag_1h.json'')]
     ''tertiary'' world0 =
   (Inl OSError,
    \<lparr>sent = [(GET, NOAA_BASE_URL @ ''ace/epam/ace_epam_5m.json'')],
     snapshots = Map.empty, logged = []\<rparr>)"
  by (simp add: fetch_noaa_data_def fetch_key_def resolve_url_def fetch_url_def caught_def
      raise_for_status_def response_json_def logging_def Let_def
      session_get_def session_retry_def max_redirects_def get_redirect_target_def
      eval_nat_numeral endswith_def
      unwritable_cache_def example_env_def scripted_def world0_def)

subsection \<open>A directory key and the tertiary catalog\<close>

lemma logging_sent [simp]: "sent (logging l w) = sent w"
  by (simp add: logging_def)

lemma index_lookup_first:
  "\<exists>rest. sent (snd (index_lookup e b d w)) = sent w @ (GET, b @ d @ ''index.json'') # rest"
proof -
  have "sent (snd (index_lookup e b d w)) = sent (snd (requests_get e (b @ d @ ''index.json'') w))"
    by (cases "requests_get e (b @ d @ ''index.json'') w")
       (auto simp add: index_lookup_def Let_def split: sum.splits)
  with requests_get_first [of e "b @ d @ ''index.json''" w] show ?thesis by simp
qed

lemma alias_probe_extends:
  "\<exists>rs. sent (snd (alias_probe e b d w)) = sent w @ rs"
proof -
  have "sent (snd (alias_probe e b d w)) = sent (snd (requests_head e (b @ d @ ''latest.json'') w))"
    by (cases "requests_head e (b @ d @ ''latest.json'') w")
       (auto simp add: alias_probe_def Let_def split: sum.splits)
  then show ?thesis by (simp add: requests_head_sent)
qed

lemma manual_scan_extends:
  "\<exists>rs. sent (snd (manual_scan e b d k w)) = sent w @ rs"
proof -
  let ?w = "logging (Attempting_manual_discovery k) w"
  have "sent (snd (manual_scan e b d k w)) = sent (snd (requests_get e (b @ d) ?w))"
    by (cases "requests_get e (b @ d) ?w")
       (auto simp add: manual_scan_def Let_def split: sum.splits list.splits)
  moreover from requests_get_first [of e "b @ d" ?w] obtain rest
    where "sent (snd (requests_get e (b @ d) ?w)) = sent w @ (GET, b @ d) # rest" by auto
  ultimately show ?thesis by simp
qed

lemma get_latest_file_url_first:
  assumes "map_of TERTIARY_ENDPOINTS k = Some ep"
  shows "\<exists>rest. sent (snd (get_latest_file_url e b k w)) =
           sent w @ (GET, b @ format_endpoint e ep @ ''index.json'') # rest"
proof -
  let ?d = "format_endpoint e ep"
  obtain u1 w1 where i: "index_lookup e b ?d w = (u1, w1)"
    by (cases "index_lookup e b ?d w")
  obtain u2 w2 where a: "alias_probe e b ?d w1 = (u2, w2)"
    by (cases "alias_probe e b ?d w1")
  obtain u3 w3 where m: "manual_scan e b ?d k w2 = (u3, w3)"
    by (cases "manual_scan e b ?d k w2")
  from index_lookup_first [of e b ?d w] i obtain r1
    where r1: "sent w1 = sent w @ (GET, b @ ?d @ ''index.json'') # r1" by auto
  from alias_probe_extends [of e b ?d w1] a obtain r2 where r2: "sent w2 = sent w1 @ r2"
    by auto
  from manual_scan_extends [of e b ?d k w2] m obtain r3 where r3: "sent w3 = sent w2 @ r3"
    by auto
  have "sent (snd (get_latest_file_url e b k w)) \<in> {sent w1, sent w2, sent w3}"
    using assms i a m
    by (auto simp add: get_latest_file_url_def Let_def split: option.splits)
  with r1 r2 r3 show ?thesis by auto
qed

lemma fetch_url_extends:
  "\<exists>rs. sent (snd (fetch_url e c k url fetched_data w)) = sent w @ rs"
proof -
  have "sent (snd (fetch_url e c k url fetched_data w)) = sent (snd (session_get e url w))"
    by (cases "session_get e url w")
       (auto simp add: fetch_url_def caught_def Let_def split: sum.splits option.splits)
  moreover from session_get_first [of e url w] obtain rest
    where "sent (snd (session_get e url w)) = sent w @ (GET, url) # rest" by auto
  ultimately show ?thesis by simp
qed

lemma fetch_key_first:
  assumes "endswith p ''/''" and "map_of TERTIARY_ENDPOINTS k = Some ep"
  shows "\<exists>rest. sent (snd (fetch_key e c k (Path p) fetched_data w)) =
           sent w @ (GET, NOAA_BASE_URL @ format_endpoint e ep @ ''index.json'') # rest"
proof -
  obtain res w1 where g: "get_latest_file_url e NOAA_BASE_URL k w = (res, w1)"
    by (cases "get_latest_file_url e NOAA_BASE_URL k w")
  from get_latest_file_url_first [OF assms(2), of e NOAA_BASE_URL w] g obtain r1
    where r1: "sent w1 = sent w @ (GET, NOAA_BASE_URL @ format_endpoint e ep @ ''index.json'') # r1"
    by auto
  have "snd (fetch_key e c k (Path p) fetched_data w) = w1 \<or>
        (\<exists>url. snd (fetch_key e c k (Path p) fetched_data w) =
                 snd (fetch_url e c k url fetched_data w1))"
    using assms(1) g
    by (auto simp add: fetch_key_def resolve_url_def split: sum.splits option.splits)
  then show ?thesis
  proof (elim disjE exE)
    assume "snd (fetch_key e c k (Path p) fetched_data w) = w1"
    with r1 show ?thesis by simp
  next
    fix url
    assume s: "snd (fetch_key e c k (Path p) fetched_data w) =
                 snd (fetch_url e c k url fetched_data w1)"
    from fetch_url_extends [of e c k url fetched_data w1] obtain rs
      where "sent (snd (fetch_url e c k url fetched_data w1)) = sent w1 @ rs" ..
    with s r1 show ?thesis by simp
  qed
qed

text \<open>
  Claim C10. \<^verbatim>\<open>get_latest_file_url\<close> takes the directory path from
  \<^verbatim>\<open>TERTIARY_ENDPOINTS\<close> alone: the path that the map being fetched gives for the key is
  never read, so two directory paths for one key give the same step, and for a key
  that \<^verbatim>\<open>TERTIARY_ENDPOINTS\<close> has, the first request of the step asks for the index of
  the directory that \<^verbatim>\<open>TERTIARY_ENDPOINTS\<close> names. For a directory-style key that
  \<^verbatim>\<open>TERTIARY_ENDPOINTS\<close> does not have, the lookup raises \<^verbatim>\<open>KeyError\<close> before any
  request is sent; nothing catches it, so a run that reaches the key ends with that
  \<^verbatim>\<open>KeyError\<close> where it stood, and the keys after it are not fetched. No run over a map
  that holds such a key returns a mapping.
\<close>

theorem missing_tertiary_key_aborts_run:
  "(endswith p ''/'' \<and> endswith p' ''/'' \<longrightarrow>
      fetch_key e category key (Path p) fetched_data w =
      fetch_key e category key (Path p') fetched_data w) \<and>
   (endswith p ''/'' \<and> map_of TERTIARY_ENDPOINTS key = Some ep \<longrightarrow>
      (\<exists>rest. sent (snd (fetch_key e category key (Path p) fetched_data w)) =
                sent w @ (GET, NOAA_BASE_URL @ format_endpoint e ep @ ''index.json'') # rest)) \<and>
   (endswith p ''/'' \<and> map_of TERTIARY_ENDPOINTS key = None \<longrightarrow>
      fetch_key e category key (Path p) fetched_data w = (Inl (KeyError key), w) \<and>
      (\<forall>pre post fd0 w0.
         fetch_loop e category pre fd0 w0 = (Inr fetched_data, w) \<longrightarrow>
         fetch_loop e category (pre @ (key, Path p) # post) fd0 w0 = (Inl (KeyError key), w)) \<and>
      (\<forall>data_endpoints.
         (key, Path p) \<in> set data_endpoints \<longrightarrow>
         (\<exists>x. fst (fetch_noaa_data e data_endpoints category w) = Inl x)))"
proof (intro conjI impI allI)
  assume "endswith p ''/'' \<and> endswith p' ''/''"
  then show "fetch_key e category key (Path p) fetched_data w =
             fetch_key e category key (Path p') fetched_data w"
    by (simp add: fetch_key_def resolve_url_def)
next
  assume "endswith p ''/'' \<and> map_of TERTIARY_ENDPOINTS key = Some ep"
  then show "\<exists>rest. sent (snd (fetch_key e category key (Path p) fetched_data w)) =
                sent w @ (GET, NOAA_BASE_URL @ format_endpoint e ep @ ''index.json'') # rest"
    using fetch_key_first [of p key ep e category fetched_data w] by simp
next
  assume a: "endswith p ''/'' \<and> map_of TERTIARY_ENDPOINTS key = None"
  then show k: "fetch_key e category key (Path p) fetched_data w = (Inl (KeyError key), w)"
    by (simp add: fetch_key_missing)
  fix pre post fd0 w0
  assume "fetch_loop e category pre fd0 w0 = (Inr fetched_data, w)"
  with k show "fetch_loop e category (pre @ (key, Path p) # post) fd0 w0 = (Inl (KeyError key), w)"
    by (simp add: fetch_loop_append)
next
  fix data_endpoints
  assume "endswith p ''/'' \<and> map_of TERTIARY_ENDPOINTS key = None"
    and "(key, Path p) \<in> set data_endpoints"
  then show "\<exists>x. fst (fetch_noaa_data e data_endpoints category w) = Inl x"
    using fetch_loop_never_returns [of key p data_endpoints e category Map.empty w]
    by (simp add: fetch_noaa_data_def)
qed

lemma endswith_slash: "endswith (s @ ''/'') ''/''"
  by (simp add: endswith_def)

theorem missing_tertiary_key_witness:
  "endswith ''lists/rgeojson/Mars/'' ''/'' \<and>
   map_of TERTIARY_ENDPOINTS ''electric_field_mars'' = None \<and>
   fetch_noaa_data (example_env Connection_failed [] [] [])
       [(''electric_field_mars'', Path ''lists/rgeojson/Mars/''),
        (''magnetometers'', Path ''goes/primary/magnetometers-1-day.json'')]
       ''secondary'' world0
     = (Inl (KeyError ''electric_field_mars''), world0) \<and>
   map_of TERTIARY_ENDPOINTS ''electric_field_us_canada'' =
     Some (Path ''lists/rgeojson/US-Canada-1D/'') \<and>
   fetch_key index_and_alias ''secondary'' ''electric_field_us_canada''
       (Path ''lists/rgeojson/Mars/'') Map.empty world0 =
     (Inr [''electric_field_us_canada'' \<mapsto> efield_index],
      \<lparr>sent = [(GET, NOAA_BASE_URL @ ''lists/rgeojson/US-Canada-1D/index.json''),
               (GET, NOAA_BASE_URL @ ''lists/rgeojson/US-Canada-1D/'' @
                       ''20240102T000000-15-Efield-x.json'')],
       snapshots =
         [''noaa_data/secondary_electric_field_us_canada_20250220120000.json''
            \<mapsto> efield_index],
       logged = [Found_latest_from_index ''20240102T000000-15-Efield-x.json'',
                 Successfully_fetched ''electric_field_us_canada'' ''secondary'']\<rparr>)"
proof -
  let ?e = "example_env Connection_failed [] [] []"
  have h1: "endswith ''lists/rgeojson/Mars/'' ''/''"
    using endswith_slash [of "''lists/rgeojson/Mars''"] by simp
  have h2: "map_of TERTIARY_ENDPOINTS ''electric_field_mars'' = None"
    by (simp add: TERTIARY_ENDPOINTS_def)
  have h3: "fetch_loop ?e ''secondary'' [] Map.empty world0 = (Inr Map.empty, world0)"
    by simp
  have h4: "map_of TERTIARY_ENDPOINTS ''electric_field_us_canada'' =
              Some (Path ''lists/rgeojson/US-Canada-1D/'')"
    by (simp add: TERTIARY_ENDPOINTS_def)
  note absent = missing_tertiary_key_aborts_run
    [of "''lists/rgeojson/Mars/''" "''lists/rgeojson/Mars/''" ?e "''secondary''"
        "''electric_field_mars''" Map.empty world0 "Path ''lists/rgeojson/Mars/''"]
  note present = missing_tertiary_key_aborts_run
    [of "''lists/rgeojson/Mars/''" "''lists/rgeojson/Mars/''" index_and_alias "''secondary''"
        "''electric_field_us_canada''" Map.empty world0 "Path ''lists/rgeojson/US-Canada-1D/''"]
  from absent h1 h2 have "\<forall>pre post fd0 w0.
         fetch_loop ?e ''secondary'' pre fd0 w0 = (Inr Map.empty, world0) \<longrightarrow>
         fetch_loop ?e ''secondary''
           (pre @ (''electric_field_mars'', Path ''lists/rgeojson/Mars/'') # post) fd0 w0 =
         (Inl (KeyError ''electric_field_mars''), world0)"
    by blast
  from this [rule_format, OF h3,
      of "[(''magnetometers'', Path ''goes/primary/magnetometers-1-day.json'')]"]
  have run: "fetch_noaa_data ?e
       [(''electric_field_mars'', Path ''lists/rgeojson/Mars/''),
        (''magnetometers'', Path ''goes/primary/magnetometers-1-day.json'')]
       ''secondary'' world0
     = (Inl (KeyError ''electric_field_mars''), world0)"
    by (simp add: fetch_noaa_data_def)
  from present h1 h4 have first: "\<exists>rest.
    sent (snd (fetch_key index_and_alias ''secondary'' ''electric_field_us_canada''
                  (Path ''lists/rgeojson/Mars/'') Map.empty world0)) =
       sent world0 @
       (GET, NOAA_BASE_URL @
             format_endpoint index_and_alias (Path ''lists/rgeojson/US-Canada-1D/'') @
             ''index.json'') # rest"
    by blast
  have step: "fetch_key index_and_alias ''secondary'' ''electric_field_us_canada''
       (Path ''lists/rgeojson/Mars/'') Map.empty world0 =
     (Inr [''electric_field_us_canada'' \<mapsto> efield_index],
      \<lparr>sent = [(GET, NOAA_BASE_URL @ ''lists/rgeojson/US-Canada-1D/index.json''),
               (GET, NOAA_BASE_URL @ ''lists/rgeojson/US-Canada-1D/'' @
                       ''20240102T000000-15-Efield-x.json'')],
       snapshots =
         [''noaa_data/secondary_electric_field_us_canada_20250220120000.json''
            \<mapsto> efield_index],
       logged = [Found_latest_from_index ''20240102T000000-15-Efield-x.json'',
                 Successfully_fetched ''electric_field_us_canada'' ''secondary'']\<rparr>)"
    by (simp add: fetch_key_def resolve_url_def get_latest_file_url_def index_lookup_def
        latest_from_index_def max_by_timestamp_def py_format_def
        fetch_url_def caught_def raise_for_status_def response_json_def logging_def Let_def
        requests_get_def session_get_def session_retry_def max_redirects_def
        get_redirect_target_def eval_nat_numeral endswith_def
        TERTIARY_ENDPOINTS_def format_endpoint_def DATA_DIR_def path_join_def
        index_and_alias_def example_env_def scripted_def world0_def efield_index_def
        NOAA_BASE_URL_def)
  from first h1 h2 run h4 step show ?thesis by (simp only: simp_thms)
qed


end
